theory Spec2Isabelle
  imports Complex_Main "HOL-Library.AList"
begin

section \<open>Common conventions\<close>

text \<open>
  Python floats are modelled as mathematical reals: rounding, infinities and NaN read from
  input files are outside the model. Python dictionaries are association lists in insertion
  order, updated with \<^const>\<open>AList.update\<close> (an existing key keeps its position, a new key
  goes to the end), and read with \<^const>\<open>map_of\<close>. Every exception of the source is a value
  of the type \<open>error\<close>; a function that may raise returns \<open>error + 'a\<close>.
\<close>

text \<open>Sequencing of computations that may raise: the first exception ends the run.\<close>

definition ebind :: "'e + 'a \<Rightarrow> ('a \<Rightarrow> 'e + 'b) \<Rightarrow> 'e + 'b" where
  "ebind m f = (case m of Inl e \<Rightarrow> Inl e | Inr x \<Rightarrow> f x)"

datatype iter_failure = IterFailure (if_step: nat) (if_ref: nat) (if_test: nat) (if_diff: int) (if_tol: int)

datatype norm_failure = NormFailure (nf_field: string) (nf_step: nat) (nf_ref: real) (nf_test: real) (nf_diff: real) (nf_tol: real)

datatype report =
    NoErrorField
  | MissingField
  | InconsistentTimeSteps nat nat
  | InvalidErrorData string nat
  | TimeStepMismatch nat nat
  | IterationDiffs "iter_failure list"
  | ErrorNormDiffs "norm_failure list"
  | LoadFailed
  | VtuFailed

text \<open>The two messages of the \<open>RuntimeError\<close> of post\_steady\_fluid.py.\<close>

datatype runtime_message = No_results_found | Start_step_beyond int nat

datatype error =
    ValueError
  | AssertionError
  | RuntimeError runtime_message
  | IndexError
  | KeyError
  | TypeError
  | AttributeError
  | AxisError
  | ZeroDivisionError
  | ComparisonError report

section \<open>scripts/compare\_results.py\<close>

subsection \<open>Parsed JSON and the extracted convergence data\<close>

datatype json =
    JNull
  | JBool bool
  | JNum real
  | JStr string
  | JArr "json list"
  | JObj "(string \<times> json) list"

text \<open>The dictionary \<open>convergence_data\<close> built by \<open>extract_convergence_data\<close>.\<close>

record conv_data =
  time_steps :: nat
  iterations :: "nat list"
  errors :: "(string \<times> json list) list"

text \<open>
  The inner loop \<open>for t, iteration_errors in enumerate(time_step_errors)\<close> (lines 84-96),
  started at index \<open>t\<close>.
\<close>

fun process_time_steps :: "string \<Rightarrow> json list \<Rightarrow> nat \<Rightarrow> conv_data \<Rightarrow> error + conv_data" where
  "process_time_steps field_name [] t cd = Inr cd"
| "process_time_steps field_name (iteration_errors # rest) t cd =
     (case iteration_errors of
        JArr es \<Rightarrow>
          if length es = 0 then Inl (ComparisonError (InvalidErrorData field_name t))
          else
            let cd1 = (if length (iterations cd) \<le> t
                       then cd\<lparr>iterations := iterations cd @ [length es]\<rparr> else cd);
                final_error = last es;
                cd2 = cd1\<lparr>errors := AList.map_entry field_name (\<lambda>l. l @ [final_error]) (errors cd1)\<rparr>
            in process_time_steps field_name rest (Suc t) cd2
      | _ \<Rightarrow> Inl (ComparisonError (InvalidErrorData field_name t)))"

text \<open>The outer loop \<open>for field_name, time_step_errors in errors.items()\<close> (lines 69-96).\<close>

fun process_fields :: "(string \<times> json) list \<Rightarrow> conv_data \<Rightarrow> error + conv_data" where
  "process_fields [] cd = Inr cd"
| "process_fields ((field_name, time_step_errors) # rest) cd =
     (case time_step_errors of
        JArr tse \<Rightarrow>
          let num_time_steps = length tse in
          if time_steps cd \<noteq> 0 \<and> time_steps cd \<noteq> num_time_steps
          then Inl (ComparisonError (InconsistentTimeSteps (time_steps cd) num_time_steps))
          else
            let cd1 = (if time_steps cd = 0 then cd\<lparr>time_steps := num_time_steps\<rparr> else cd);
                cd2 = cd1\<lparr>errors := AList.update field_name [] (errors cd1)\<rparr>
            in (case process_time_steps field_name tse 0 cd2 of
                  Inl e \<Rightarrow> Inl e
                | Inr cd3 \<Rightarrow> process_fields rest cd3)
      | _ \<Rightarrow> process_fields rest cd)"

text \<open>
  \<open>data['convergence']['error']\<close>: subscripting anything but a dictionary with a string is a
  \<open>TypeError\<close>; a missing key is a \<open>KeyError\<close>, which the \<open>except KeyError\<close> of
  \<open>extract_convergence_data\<close> turns into a \<open>ComparisonError\<close>.
\<close>

definition convergence_error :: "json \<Rightarrow> error + json" where
  "convergence_error c =
     (case c of
        JObj kvs \<Rightarrow> (case map_of kvs ''error'' of
                      None \<Rightarrow> Inl (ComparisonError MissingField)
                    | Some e \<Rightarrow> Inr e)
      | _ \<Rightarrow> Inl TypeError)"

text \<open>
  Lines 53-59 of \<open>extract_convergence_data\<close>, on a parsed JSON document whose top level is
  an object: the value under \<open>error\<close>, else the one under \<open>convergence.error\<close>.
\<close>

definition select_errors :: "(string \<times> json) list \<Rightarrow> error + json" where
  "select_errors data =
     (case map_of data ''error'' of
        Some e \<Rightarrow> Inr e
      | None \<Rightarrow> (case map_of data ''convergence'' of
                   Some c \<Rightarrow> convergence_error c
                 | None \<Rightarrow> Inl (ComparisonError NoErrorField)))"

text \<open>\<open>errors.items()\<close> exists only on a dictionary (\<open>AttributeError\<close> otherwise).\<close>

definition extract_convergence_data :: "(string \<times> json) list \<Rightarrow> error + conv_data" where
  "extract_convergence_data data =
     (case select_errors data of
        Inl e \<Rightarrow> Inl e
      | Inr (JObj kvs) \<Rightarrow>
          process_fields kvs \<lparr>time_steps = 0, iterations = [], errors = []\<rparr>
      | Inr _ \<Rightarrow> Inl AttributeError)"

subsection \<open>The three checks\<close>

definition compare_time_steps :: "conv_data \<Rightarrow> conv_data \<Rightarrow> error + bool" where
  "compare_time_steps ref_data test_data =
     (let ref_steps = time_steps ref_data; test_steps = time_steps test_data in
      if ref_steps \<noteq> test_steps
      then Inl (ComparisonError (TimeStepMismatch ref_steps test_steps))
      else Inr True)"

text \<open>
  The loop of \<open>compare_iterations\<close> (lines 132-141) over the remaining time steps, with the
  list \<open>failures\<close> collected so far. A list index out of range raises \<open>IndexError\<close>.
\<close>

fun compare_iterations_loop ::
  "nat list \<Rightarrow> conv_data \<Rightarrow> conv_data \<Rightarrow> int \<Rightarrow> iter_failure list \<Rightarrow> error + iter_failure list" where
  "compare_iterations_loop [] ref_data test_data tolerance failures = Inr failures"
| "compare_iterations_loop (t # ts) ref_data test_data tolerance failures =
     (if length (iterations ref_data) \<le> t \<or> length (iterations test_data) \<le> t
      then Inl IndexError
      else
        let ref_iters = iterations ref_data ! t;
            test_iters = iterations test_data ! t;
            diff = \<bar>int test_iters - int ref_iters\<bar>
        in compare_iterations_loop ts ref_data test_data tolerance
             (if diff > tolerance
              then failures @ [IterFailure t ref_iters test_iters diff tolerance]
              else failures))"

definition compare_iterations :: "conv_data \<Rightarrow> conv_data \<Rightarrow> int \<Rightarrow> error + bool" where
  "compare_iterations ref_data test_data tolerance =
     (case compare_iterations_loop [0..<time_steps ref_data] ref_data test_data tolerance [] of
        Inl e \<Rightarrow> Inl e
      | Inr failures \<Rightarrow>
          if failures \<noteq> [] then Inl (ComparisonError (IterationDiffs failures)) else Inr True)"

text \<open>
  A final error norm takes part in a comparison with 0, a subtraction and \<open>abs\<close>: a JSON
  number does, a JSON boolean counts as 0 or 1, anything else raises \<open>TypeError\<close>.
  JSON numbers are read as reals: an integer too large for a float, on which Python's
  arithmetic and number formats raise \<open>OverflowError\<close>, is outside the model.
\<close>

fun as_number :: "json \<Rightarrow> real option" where
  "as_number (JNum r) = Some r"
| "as_number (JBool b) = Some (if b then 1 else 0)"
| "as_number _ = None"

text \<open>
  Python's \<open>/\<close> on numbers raises \<open>ZeroDivisionError\<close> on a zero divisor (and, outside
  the model, \<open>OverflowError\<close> when a quotient of integers does not fit a float).
\<close>

definition py_truediv :: "real \<Rightarrow> real \<Rightarrow> error + real" where
  "py_truediv a b = (if b = 0 then Inl ZeroDivisionError else Inr (a / b))"

text \<open>Lines 180-184: the difference that is compared against the tolerance.\<close>

definition rel_diff :: "real \<Rightarrow> real \<Rightarrow> error + real" where
  "rel_diff ref_err test_err =
     (if ref_err > 0
      then py_truediv \<bar>test_err - ref_err\<bar> ref_err
      else Inr \<bar>test_err - ref_err\<bar>)"

text \<open>The loop over the time steps of one field (lines 175-191).\<close>

fun compare_error_norms_steps ::
  "string \<Rightarrow> nat list \<Rightarrow> json list \<Rightarrow> json list \<Rightarrow> real \<Rightarrow> norm_failure list \<Rightarrow> error + norm_failure list" where
  "compare_error_norms_steps field [] ref_errors test_errors rel_tolerance failures = Inr failures"
| "compare_error_norms_steps field (t # ts) ref_errors test_errors rel_tolerance failures =
     (if length ref_errors \<le> t \<or> length test_errors \<le> t then Inl IndexError
      else
        (case (as_number (ref_errors ! t), as_number (test_errors ! t)) of
           (Some ref_err, Some test_err) \<Rightarrow>
             (case rel_diff ref_err test_err of
                Inl e \<Rightarrow> Inl e
              | Inr d \<Rightarrow>
                  compare_error_norms_steps field ts ref_errors test_errors rel_tolerance
                    (if d > rel_tolerance
                     then failures @ [NormFailure field t ref_err test_err d rel_tolerance]
                     else failures))
         | _ \<Rightarrow> Inl TypeError))"

text \<open>
  The loop over the fields (lines 171-191). Every field of the list is a key of both
  dictionaries; the \<open>KeyError\<close> branches are there to keep the function total.
\<close>

fun compare_error_norms_fields ::
  "string list \<Rightarrow> conv_data \<Rightarrow> conv_data \<Rightarrow> real \<Rightarrow> norm_failure list \<Rightarrow> error + norm_failure list" where
  "compare_error_norms_fields [] ref_data test_data rel_tolerance failures = Inr failures"
| "compare_error_norms_fields (field # fs) ref_data test_data rel_tolerance failures =
     (case (map_of (errors ref_data) field, map_of (errors test_data) field) of
        (Some ref_errors, Some test_errors) \<Rightarrow>
          (case compare_error_norms_steps field [0..<time_steps ref_data]
                  ref_errors test_errors rel_tolerance failures of
             Inl e \<Rightarrow> Inl e
           | Inr failures' \<Rightarrow> compare_error_norms_fields fs ref_data test_data rel_tolerance failures')
      | _ \<Rightarrow> Inl KeyError)"

text \<open>
  \<open>compare_error_norms\<close> (lines 151-198) for a given order of iteration over the set
  \<open>fields\<close>. Python iterates a set of strings in an order that changes from run to run, so
  the order is an argument: any list \<open>field_order\<close> whose elements are those of the set.
\<close>

definition compare_error_norms_in ::
  "string list \<Rightarrow> conv_data \<Rightarrow> conv_data \<Rightarrow> real \<Rightarrow> error + bool" where
  "compare_error_norms_in field_order ref_data test_data rel_tolerance =
     (case compare_error_norms_fields field_order ref_data test_data rel_tolerance [] of
        Inl e \<Rightarrow> Inl e
      | Inr failures \<Rightarrow>
          if failures \<noteq> [] then Inl (ComparisonError (ErrorNormDiffs failures)) else Inr True)"

text \<open>
  \<open>fields\<close> is the set of the reference's field names when both sets are equal and their
  intersection otherwise: in both cases the names that are keys of both dictionaries.
  \<open>common_fields\<close> lists them in the reference's order, one of the orders Python may take;
  \<open>main\<close> runs the check in this order (its exit code does not depend on the order).
\<close>

definition common_fields :: "conv_data \<Rightarrow> conv_data \<Rightarrow> string list" where
  "common_fields ref_data test_data =
     filter (\<lambda>f. f \<in> set (map fst (errors test_data))) (remdups (map fst (errors ref_data)))"

definition compare_error_norms :: "conv_data \<Rightarrow> conv_data \<Rightarrow> real \<Rightarrow> error + bool" where
  "compare_error_norms ref_data test_data rel_tolerance =
     compare_error_norms_in (common_fields ref_data test_data) ref_data test_data rel_tolerance"

subsection \<open>The summary and the main function\<close>

text \<open>
  \<open>print_summary\<close> prints only, but its list accesses and number formats can raise. The
  model keeps the exceptions and leaves the printed text out; the fields are visited in the
  order of the test dictionary (the source sorts the names, which changes only which of
  several exceptions comes first).
\<close>

fun print_summary_iterations :: "nat list \<Rightarrow> conv_data \<Rightarrow> conv_data \<Rightarrow> error + unit" where
  "print_summary_iterations [] ref_data test_data = Inr ()"
| "print_summary_iterations (t # ts) ref_data test_data =
     (if length (iterations ref_data) \<le> t \<or> length (iterations test_data) \<le> t
      then Inl IndexError
      else print_summary_iterations ts ref_data test_data)"

text \<open>The format \<open>.6e\<close> applied to a value that is not a number.\<close>

fun format_e :: "json \<Rightarrow> error + unit" where
  "format_e (JNum r) = Inr ()"
| "format_e (JBool b) = Inr ()"
| "format_e (JStr s) = Inl ValueError"
| "format_e _ = Inl TypeError"

fun print_summary_steps :: "nat list \<Rightarrow> json list \<Rightarrow> json list \<Rightarrow> error + unit" where
  "print_summary_steps [] ref_errors test_errors = Inr ()"
| "print_summary_steps (t # ts) ref_errors test_errors =
     (if t < length ref_errors then
        (if length test_errors \<le> t then Inl IndexError
         else
           (case (as_number (ref_errors ! t), as_number (test_errors ! t)) of
              (Some ref_err, Some test_err) \<Rightarrow>
                (case rel_diff ref_err test_err of
                   Inl e \<Rightarrow> Inl e
                 | Inr d \<Rightarrow> print_summary_steps ts ref_errors test_errors)
            | _ \<Rightarrow> Inl TypeError))
      else
        (if length test_errors \<le> t then Inl IndexError
         else (case format_e (test_errors ! t) of
                 Inl e \<Rightarrow> Inl e
               | Inr u \<Rightarrow> print_summary_steps ts ref_errors test_errors)))"

fun print_summary_fields :: "string list \<Rightarrow> conv_data \<Rightarrow> conv_data \<Rightarrow> error + unit" where
  "print_summary_fields [] ref_data test_data = Inr ()"
| "print_summary_fields (field # fs) ref_data test_data =
     (let ref_errors = (case map_of (errors ref_data) field of None \<Rightarrow> [] | Some l \<Rightarrow> l) in
      case map_of (errors test_data) field of
        None \<Rightarrow> Inl KeyError
      | Some test_errors \<Rightarrow>
          (case print_summary_steps [0..<time_steps test_data] ref_errors test_errors of
             Inl e \<Rightarrow> Inl e
           | Inr u \<Rightarrow> print_summary_fields fs ref_data test_data))"

definition print_summary :: "conv_data \<Rightarrow> conv_data \<Rightarrow> error + unit" where
  "print_summary ref_data test_data =
     (case print_summary_iterations [0..<time_steps test_data] ref_data test_data of
        Inl e \<Rightarrow> Inl e
      | Inr u \<Rightarrow> print_summary_fields (remdups (map fst (errors test_data))) ref_data test_data)"

text \<open>
  The parsed command line. \<open>parse_args\<close> fills in the defaults of the two tolerances
  (lines 328-339).
\<close>

record args =
  iter_tolerance :: int
  error_tolerance :: real
  ref_vtu :: "string option"
  test_vtu :: "string option"

definition parse_args :: "int option \<Rightarrow> real option \<Rightarrow> string option \<Rightarrow> string option \<Rightarrow> args" where
  "parse_args it et rv tv =
     \<lparr>iter_tolerance = (case it of None \<Rightarrow> 2 | Some n \<Rightarrow> n),
      error_tolerance = (case et of None \<Rightarrow> 0.10 | Some x \<Rightarrow> x),
      ref_vtu = rv, test_vtu = tv\<rparr>"

text \<open>
  The body of the \<open>try\<close> block of \<open>main\<close> (lines 356-405). Reading the two JSON files
  and comparing two VTU files go through the file system and a mesh library: the outcomes
  of \<open>load_json\<close> and the function \<open>compare_vtu\<close> are parameters.
\<close>

definition main_body ::
  "args \<Rightarrow> (error + (string \<times> json) list) \<Rightarrow> (error + (string \<times> json) list) \<Rightarrow>
   (string \<Rightarrow> string \<Rightarrow> error + unit) \<Rightarrow> error + unit" where
  "main_body a ref_load test_load compare_vtu =
     ebind ref_load (\<lambda>ref_json.
     ebind test_load (\<lambda>test_json.
     ebind (extract_convergence_data ref_json) (\<lambda>ref_data.
     ebind (extract_convergence_data test_json) (\<lambda>test_data.
     ebind (print_summary ref_data test_data) (\<lambda>u.
     ebind (compare_time_steps ref_data test_data) (\<lambda>b1.
     ebind (compare_iterations ref_data test_data (iter_tolerance a)) (\<lambda>b2.
     ebind (compare_error_norms ref_data test_data (error_tolerance a)) (\<lambda>b3.
       if ref_vtu a \<noteq> None \<or> test_vtu a \<noteq> None then
         (case (ref_vtu a, test_vtu a) of
            (Some rp, Some tp) \<Rightarrow> compare_vtu rp tp
          | _ \<Rightarrow> Inl (ComparisonError VtuFailed))
       else Inr ()))))))))"

text \<open>
  \<open>main\<close> returns the exit code: 0 at the end of the \<open>try\<close> block, 1 from both
  \<open>except\<close> clauses.
\<close>

definition main :: 
  "args \<Rightarrow> (error + (string \<times> json) list) \<Rightarrow> (error + (string \<times> json) list) \<Rightarrow>
   (string \<Rightarrow> string \<Rightarrow> error + unit) \<Rightarrow> int" where
  "main a ref_load test_load compare_vtu =
     (case main_body a ref_load test_load compare_vtu of
        Inl (ComparisonError r) \<Rightarrow> 1
      | Inl e \<Rightarrow> 1
      | Inr u \<Rightarrow> 0)"

subsection \<open>Notions used to state the properties of the comparator\<close>

text \<open>Time step \<open>t\<close> violates the iteration tolerance, and the entry reported for it.\<close>

definition iter_violation :: "conv_data \<Rightarrow> conv_data \<Rightarrow> int \<Rightarrow> nat \<Rightarrow> bool" where
  "iter_violation ref_data test_data tolerance t =
     (\<bar>int (iterations test_data ! t) - int (iterations ref_data ! t)\<bar> > tolerance)"

definition iter_failure_at :: "conv_data \<Rightarrow> conv_data \<Rightarrow> int \<Rightarrow> nat \<Rightarrow> iter_failure" where
  "iter_failure_at ref_data test_data tolerance t =
     IterFailure t (iterations ref_data ! t) (iterations test_data ! t)
       \<bar>int (iterations test_data ! t) - int (iterations ref_data ! t)\<bar> tolerance"

text \<open>
  The iteration counts of the first field whose time-step list has an entry: the counts that
  the claim says are the only ones recorded.
\<close>

fun iteration_count :: "json \<Rightarrow> nat" where
  "iteration_count (JArr es) = length es"
| "iteration_count _ = 0"

fun first_field_counts :: "(string \<times> json) list \<Rightarrow> nat list" where
  "first_field_counts [] = []"
| "first_field_counts ((k, v) # rest) =
     (case v of
        JArr (x # xs) \<Rightarrow> map iteration_count (x # xs)
      | _ \<Rightarrow> first_field_counts rest)"

text \<open>
  The difference that the specification states for a reference and a test value; the
  numbers of a stored list of final error norms; the failures of one field in the order of
  the time steps; and logs of residual norms: every compared entry is a number and no
  reference norm is negative.
\<close>

definition stated_diff :: "real \<Rightarrow> real \<Rightarrow> real" where
  "stated_diff ref_err test_err =
     (if ref_err \<noteq> 0 then \<bar>test_err - ref_err\<bar> / ref_err else \<bar>test_err - ref_err\<bar>)"

definition number_at :: "json list \<Rightarrow> nat \<Rightarrow> real" where
  "number_at l t = (case as_number (l ! t) of Some r \<Rightarrow> r | None \<Rightarrow> 0)"

definition field_errors :: "conv_data \<Rightarrow> string \<Rightarrow> json list" where
  "field_errors cd f = (case map_of (errors cd) f of Some l \<Rightarrow> l | None \<Rightarrow> [])"

definition norm_failure_at :: "string \<Rightarrow> json list \<Rightarrow> json list \<Rightarrow> real \<Rightarrow> nat \<Rightarrow> norm_failure" where
  "norm_failure_at f re te tol t =
     NormFailure f t (number_at re t) (number_at te t)
       (stated_diff (number_at re t) (number_at te t)) tol"

definition field_failures :: "conv_data \<Rightarrow> conv_data \<Rightarrow> real \<Rightarrow> string \<Rightarrow> norm_failure list" where
  "field_failures r x tol f =
     map (norm_failure_at f (field_errors r f) (field_errors x f) tol)
       (filter (\<lambda>t. stated_diff (number_at (field_errors r f) t) (number_at (field_errors x f) t) > tol)
          [0..<time_steps r])"

definition residual_norm_logs :: "conv_data \<Rightarrow> conv_data \<Rightarrow> bool" where
  "residual_norm_logs r x =
     list_all (\<lambda>f. list_all (\<lambda>t.
         t < length (field_errors r f) \<and> t < length (field_errors x f) \<and>
         as_number (field_errors r f ! t) \<noteq> None \<and> as_number (field_errors x f ! t) \<noteq> None \<and>
         0 \<le> number_at (field_errors r f) t)
       [0..<time_steps r]) (common_fields r x)"

section \<open>Arrays and mesh snapshots\<close>

text \<open>
  What the scripts use of numpy and of the mesh reader, following their documentation.
  \<open>v2n\<close> turns a point-data array with one component into a one-dimensional array and one
  with several components into a two-dimensional array with one row per point.
\<close>

datatype ndarray = Arr1 "real list" | Arr2 "real list list"

text \<open>A floating-point result that may be NaN (numpy's mean of an empty array).\<close>

datatype npfloat = Fin real | NaN

text \<open>
  One mesh snapshot (the output of \<open>read_geo\<close>): the point coordinates and the named
  point-data arrays. \<open>HasArray\<close> and \<open>GetArray\<close> look an array up by name.
\<close>

record vtu =
  points :: "(real \<times> real \<times> real) list"
  point_data :: "(string \<times> ndarray) list"

definition HasArray :: "vtu \<Rightarrow> string \<Rightarrow> bool" where
  "HasArray res name = (map_of (point_data res) name \<noteq> None)"

text \<open>\<open>v2n(res.GetPointData().GetArray(name))\<close>: \<open>GetArray\<close> gives \<open>None\<close> for a missing
  name, on which \<open>v2n\<close> raises \<open>AttributeError\<close>.\<close>

definition GetArray :: "vtu \<Rightarrow> string \<Rightarrow> error + ndarray" where
  "GetArray res name =
     (case map_of (point_data res) name of None \<Rightarrow> Inl AttributeError | Some a \<Rightarrow> Inr a)"

text \<open>\<open>np.mean\<close> of a one-dimensional array; NaN (with a warning) on an empty one.\<close>

definition np_mean :: "real list \<Rightarrow> npfloat" where
  "np_mean xs = (if xs = [] then NaN else Fin (sum_list xs / real (length xs)))"

text \<open>\<open>np.max\<close> and \<open>np.min\<close> raise \<open>ValueError\<close> on an empty array.\<close>

fun np_max :: "real list \<Rightarrow> error + real" where
  "np_max [] = Inl ValueError"
| "np_max (x # xs) = Inr (fold max xs x)"

fun np_min :: "real list \<Rightarrow> error + real" where
  "np_min [] = Inl ValueError"
| "np_min (x # xs) = Inr (fold min xs x)"

text \<open>All entries of an array, row by row (what a reduction over the whole array sees).\<close>

fun flat :: "ndarray \<Rightarrow> real list" where
  "flat (Arr1 xs) = xs"
| "flat (Arr2 rows) = concat rows"

text \<open>The Euclidean norm of one row, and \<open>np.linalg.norm(a, axis=1)\<close>, which needs a
  second axis.\<close>

definition row_norm :: "real list \<Rightarrow> real" where
  "row_norm row = sqrt (sum_list (map (\<lambda>c. c\<^sup>2) row))"

fun norm_axis1 :: "ndarray \<Rightarrow> error + real list" where
  "norm_axis1 (Arr1 xs) = Inl AxisError"
| "norm_axis1 (Arr2 rows) = Inr (map row_norm rows)"

text \<open>Indexing with a boolean mask of the same length; \<open>IndexError\<close> on another length.\<close>

definition mask_select :: "'a list \<Rightarrow> bool list \<Rightarrow> error + 'a list" where
  "mask_select xs msk =
     (if length msk \<noteq> length xs then Inl IndexError
      else Inr (map fst (filter snd (zip xs msk))))"

text \<open>Indexing with an array of point indices; \<open>IndexError\<close> on an index out of range.\<close>

definition take_ids :: "'a list \<Rightarrow> nat list \<Rightarrow> error + 'a list" where
  "take_ids xs pt =
     (if list_all (\<lambda>i. i < length xs) pt then Inr (map (\<lambda>i. xs ! i) pt) else Inl IndexError)"

text \<open>
  A slice \<open>xs[start:stop]\<close> with Python's treatment of negative and too large bounds.
\<close>

definition slice_bound :: "nat \<Rightarrow> int \<Rightarrow> nat" where
  "slice_bound n i = (if i < 0 then nat (max 0 (i + int n)) else min (nat i) n)"

definition py_slice :: "'a list \<Rightarrow> int \<Rightarrow> int \<Rightarrow> 'a list" where
  "py_slice xs start stop =
     (let s = slice_bound (length xs) start; e = slice_bound (length xs) stop
      in take (e - s) (drop s xs))"

text \<open>\<open>np.arange(n)\<close> and \<open>range(n)\<close>: empty for \<open>n \<le> 0\<close>.\<close>

definition py_range :: "int \<Rightarrow> nat list" where
  "py_range n = [0..<nat n]"

section \<open>pulsatile\_flow/post\_fluid.py\<close>

text \<open>A value of the dictionary \<open>results\<close>: an array or a number.\<close>

datatype rvalue = RArr ndarray | RNum npfloat

text \<open>Lines 48-54.\<close>

definition pressure_block :: "vtu \<Rightarrow> (string \<times> rvalue) list \<Rightarrow> error + (string \<times> rvalue) list" where
  "pressure_block res results =
     (if HasArray res ''Pressure'' then
        ebind (GetArray res ''Pressure'') (\<lambda>pressure.
        let r1 = AList.update ''pressure'' (RArr pressure) results;
            r2 = AList.update ''pressure_mean'' (RNum (np_mean (flat pressure))) r1
        in ebind (np_max (flat pressure)) (\<lambda>mx.
           ebind (np_min (flat pressure)) (\<lambda>mn.
           Inr (AList.update ''pressure_min'' (RNum (Fin mn))
                  (AList.update ''pressure_max'' (RNum (Fin mx)) r2)))))
      else Inr results)"

text \<open>Lines 57-63.\<close>

definition velocity_block :: "vtu \<Rightarrow> (string \<times> rvalue) list \<Rightarrow> error + (string \<times> rvalue) list" where
  "velocity_block res results =
     (if HasArray res ''Velocity'' then
        ebind (GetArray res ''Velocity'') (\<lambda>velocity.
        ebind (norm_axis1 velocity) (\<lambda>velocity_mag.
        let r1 = AList.update ''velocity'' (RArr velocity) results;
            r2 = AList.update ''velocity_mag'' (RArr (Arr1 velocity_mag)) r1;
            r3 = AList.update ''velocity_mean'' (RNum (np_mean velocity_mag)) r2
        in ebind (np_max velocity_mag) (\<lambda>mx.
           Inr (AList.update ''velocity_max'' (RNum (Fin mx)) r3))))
      else Inr results)"

text \<open>Lines 68-71 and 94-97: the magnitude of an array with one or with several components.\<close>

fun magnitude :: "ndarray \<Rightarrow> real list" where
  "magnitude (Arr1 xs) = xs"
| "magnitude (Arr2 rows) = map row_norm rows"

text \<open>Lines 78-89: the ring average at the middle cross-section.\<close>

definition wss_mid_mean :: "(real \<times> real \<times> real) list \<Rightarrow> real list \<Rightarrow> error + npfloat" where
  "wss_mid_mean pts wss_mag =
     (let z_coords = map (\<lambda>(x, y, z). z) pts in
      ebind (np_min z_coords) (\<lambda>z_min.
      ebind (np_max z_coords) (\<lambda>z_max.
      let z_mid = (z_min + z_max) / 2;
          z_tol = (z_max - z_min) * 0.05;
          mid_mask = map (\<lambda>z. \<bar>z - z_mid\<bar> < z_tol) z_coords
      in ebind (mask_select wss_mag mid_mask) (\<lambda>wss_mid.
         let wall_mask = map (\<lambda>w. w > 1 / 10 ^ 10) wss_mid in
         if list_ex (\<lambda>b. b) wall_mask
         then ebind (mask_select wss_mid wall_mask) (\<lambda>sel. Inr (np_mean sel))
         else Inr (np_mean wss_mid)))))"

text \<open>Lines 66-89.\<close>

definition wss_block :: "vtu \<Rightarrow> (string \<times> rvalue) list \<Rightarrow> error + (string \<times> rvalue) list" where
  "wss_block res results =
     (if HasArray res ''WSS'' then
        ebind (GetArray res ''WSS'') (\<lambda>wss.
        let wss_mag = magnitude wss;
            r1 = AList.update ''wss'' (RArr wss) results;
            r2 = AList.update ''wss_mag'' (RArr (Arr1 wss_mag)) r1;
            r3 = AList.update ''wss_mean'' (RNum (np_mean wss_mag)) r2
        in ebind (np_max wss_mag) (\<lambda>mx.
           let r4 = AList.update ''wss_max'' (RNum (Fin mx)) r3 in
           ebind (wss_mid_mean (points res) wss_mag) (\<lambda>m.
           Inr (AList.update ''wss_mid_mean'' (RNum m) r4))))
      else Inr results)"

text \<open>Lines 92-101.\<close>

definition traction_block :: "vtu \<Rightarrow> (string \<times> rvalue) list \<Rightarrow> error + (string \<times> rvalue) list" where
  "traction_block res results =
     (if HasArray res ''Traction'' then
        ebind (GetArray res ''Traction'') (\<lambda>traction.
        let traction_mag = magnitude traction;
            r1 = AList.update ''traction'' (RArr traction) results;
            r2 = AList.update ''traction_mag'' (RArr (Arr1 traction_mag)) r1;
            r3 = AList.update ''traction_mean'' (RNum (np_mean traction_mag)) r2
        in ebind (np_max traction_mag) (\<lambda>mx.
           Inr (AList.update ''traction_max'' (RNum (Fin mx)) r3)))
      else Inr results)"

definition extract_results_fluid :: "vtu \<Rightarrow> error + (string \<times> rvalue) list" where
  "extract_results_fluid res =
     ebind (pressure_block res []) (\<lambda>r1.
     ebind (velocity_block res r1) (\<lambda>r2.
     ebind (wss_block res r2) (\<lambda>r3.
     traction_block res r3)))"

text \<open>
  The loop of both heartbeat plots (lines 249-254 here, lines 367-371 of
  post\_steady\_fluid.py): one curve per beat, the window of the series against
  \<open>beat_steps\<close>. The plotting library raises \<open>ValueError\<close> when the two differ in length.
  The result is the list of the curves drawn.
\<close>

fun plot_beats ::
  "nat list \<Rightarrow> nat list \<Rightarrow> npfloat list \<Rightarrow> int \<Rightarrow> (nat list \<times> npfloat list) list
   \<Rightarrow> error + (nat list \<times> npfloat list) list" where
  "plot_beats [] beat_steps series steps_per_beat curves = Inr curves"
| "plot_beats (i # is) beat_steps series steps_per_beat curves =
     (let start = int i * steps_per_beat;
          stop = start + steps_per_beat;
          beat = py_slice series start stop
      in if length beat_steps \<noteq> length beat then Inl ValueError
         else plot_beats is beat_steps series steps_per_beat (curves @ [(beat_steps, beat)]))"

text \<open>Floor division of integers; \<open>ZeroDivisionError\<close> on a zero divisor.\<close>

definition py_floordiv :: "int \<Rightarrow> int \<Rightarrow> error + int" where
  "py_floordiv a b = (if b = 0 then Inl ZeroDivisionError else Inr (a div b))"

text \<open>
  \<open>plot_wss_heartbeats\<close> (lines 222-266): \<open>None\<close> when the plot is skipped, else the curves
  of the figure. \<open>results[0]\<close> raises \<open>IndexError\<close> on an empty list and
  \<open>r["wss_mid_mean"]\<close> raises \<open>KeyError\<close> where the key is missing. A value stored under
  \<open>wss_mid_mean\<close> is always a number.
\<close>

fun wss_mid_series :: "(string \<times> rvalue) list list \<Rightarrow> error + npfloat list" where
  "wss_mid_series [] = Inr []"
| "wss_mid_series (r # rs) =
     (case map_of r ''wss_mid_mean'' of
        None \<Rightarrow> Inl KeyError
      | Some (RNum m) \<Rightarrow> ebind (wss_mid_series rs) (\<lambda>ms. Inr (m # ms))
      | Some (RArr a) \<Rightarrow> Inl TypeError)"

definition plot_wss_heartbeats ::
  "(string \<times> rvalue) list list \<Rightarrow> int \<Rightarrow> error + (nat list \<times> npfloat list) list option" where
  "plot_wss_heartbeats results steps_per_beat =
     (case results of
        [] \<Rightarrow> Inl IndexError
      | r0 # rest \<Rightarrow>
          if map_of r0 ''wss_mid_mean'' = None then Inr None
          else
            ebind (wss_mid_series results) (\<lambda>wss_mid.
            ebind (py_floordiv (int (length wss_mid)) steps_per_beat) (\<lambda>n_beats.
            if n_beats = 0 then Inr None
            else
              let beat_steps = py_range steps_per_beat in
              ebind (plot_beats (py_range n_beats) beat_steps wss_mid steps_per_beat [])
                (\<lambda>curves. Inr (Some curves)))))"

subsection \<open>Notions used to state the property of the ring average\<close>

text \<open>
  The WSS magnitudes of the points that lie in the 5 percent axial band around the middle
  cross-section and whose magnitude is above the threshold.
\<close>

definition mid_band_wall_values :: "(real \<times> real \<times> real) list \<Rightarrow> real list \<Rightarrow> real list" where
  "mid_band_wall_values pts wss_mag =
     (let zs = map (\<lambda>(x, y, z). z) pts;
          z_min = Min (set zs); z_max = Max (set zs)
      in map fst (filter (\<lambda>(w, z). \<bar>z - (z_min + z_max) / 2\<bar> < (z_max - z_min) * 0.05 \<and> w > 1 / 10 ^ 10)
                    (zip wss_mag zs)))"

section \<open>pulsatile\_flow/post\_steady\_fluid.py\<close>

subsection \<open>Cylindrical coordinates\<close>

text \<open>
  \<open>np.arctan2(x1, x2)\<close>, the angle of the point with abscissa \<open>x2\<close> and ordinate \<open>x1\<close>, and
  the remainder \<open>a % m\<close> of floats for a positive \<open>m\<close>.
\<close>

definition arctan2 :: "real \<Rightarrow> real \<Rightarrow> real" where
  "arctan2 x1 x2 =
     (if x2 > 0 then arctan (x1 / x2)
      else if x2 < 0 then (if x1 \<ge> 0 then arctan (x1 / x2) + pi else arctan (x1 / x2) - pi)
      else if x1 > 0 then pi / 2
      else if x1 < 0 then - (pi / 2)
      else 0)"

definition py_mod :: "real \<Rightarrow> real \<Rightarrow> real" where
  "py_mod a m = a - m * of_int \<lfloor>a / m\<rfloor>"

text \<open>\<open>xyz2cra\<close> (lines 33-39) for one point: angle, radius, axial position.\<close>

definition xyz2cra :: "real \<times> real \<times> real \<Rightarrow> real \<times> real \<times> real" where
  "xyz2cra p =
     (case p of (x, y, z) \<Rightarrow>
        (py_mod (arctan2 x y + 2 * pi) (2 * pi), sqrt (x\<^sup>2 + y\<^sup>2), z))"

subsection \<open>Point group keys\<close>

text \<open>
  A key is a Python tuple of three entries, each an integer or a string; the string
  \<open>":"\<close> marks the axis along which the points vary.
\<close>

datatype label = LInt int | LStr string

type_synonym key = "label \<times> label \<times> label"

definition wild :: label where
  "wild = LStr '':''"

fun nth3 :: "'a \<times> 'a \<times> 'a \<Rightarrow> nat \<Rightarrow> 'a" where
  "nth3 (a, b, c) i = (if i = 0 then a else if i = 1 then b else c)"

text \<open>\<open>":" in loc\<close> and \<open>list(loc).index(":")\<close>.\<close>

definition has_wild :: "key \<Rightarrow> bool" where
  "has_wild loc = list_ex (\<lambda>i. nth3 loc i = wild) [0, 1, 2]"

definition wild_index :: "key \<Rightarrow> nat" where
  "wild_index loc = (if nth3 loc 0 = wild then 0 else if nth3 loc 1 = wild then 1 else 2)"

subsection \<open>get\_ids\<close>

text \<open>
  \<open>np.isclose(a, b)\<close> with numpy's default tolerances \<open>rtol = 1e-05\<close> and \<open>atol = 1e-08\<close>:
  \<open>|a - b| <= atol + rtol * |b|\<close>.
\<close>

definition isclose :: "real \<Rightarrow> real \<Rightarrow> bool" where
  "isclose a b = (\<bar>a - b\<bar> \<le> 1 / 10 ^ 8 + 1 / 10 ^ 5 * \<bar>b\<bar>)"

text \<open>Lines 52-63: the named positions of the domain; an unknown domain is a \<open>ValueError\<close>.\<close>

definition domain_points ::
  "string \<Rightarrow> real \<Rightarrow> real \<Rightarrow>
   error + ((label \<times> real) list \<times> (label \<times> real) list \<times> (label \<times> real) list)" where
  "domain_points domain ro h =
     (if domain = ''fluid'' then
        Inr ([(LInt 0, 0)],
             [(LStr ''center'', 0)],
             [(LStr ''start'', 0), (LStr ''mid'', h / 2), (LStr ''end'', h)])
      else if domain = ''interface'' then
        Inr ([(LInt 0, 0), (LInt 3, 0.5 * pi), (LInt 6, pi), (LInt 9, 1.5 * pi)],
             [(LStr ''wall'', ro)],
             [(LStr ''start'', 0), (LStr ''mid'', h / 2), (LStr ''end'', h)])
      else Inl ValueError)"

text \<open>Lines 66-77: the dictionary \<open>locations\<close> from each key to its position.\<close>

definition identifiers :: "label \<Rightarrow> label \<Rightarrow> label \<Rightarrow> key list" where
  "identifiers cn rn an = [(cn, rn, an), (wild, rn, an), (cn, wild, an), (cn, rn, wild)]"

definition locations ::
  "(label \<times> real) list \<Rightarrow> (label \<times> real) list \<Rightarrow> (label \<times> real) list \<Rightarrow>
   (key \<times> (real \<times> real \<times> real)) list" where
  "locations p_cir p_rad p_axi =
     fold (\<lambda>(cn, cp).
       fold (\<lambda>(rn, rp).
         fold (\<lambda>(an, ap).
           fold (\<lambda>i. AList.update i (cp, rp, ap)) (identifiers cn rn an))
         p_axi)
       p_rad)
     p_cir []"

text \<open>
  Lines 83-84: the indices of the points that are close to the position on every axis of
  the key that is not \<open>":"\<close>, in increasing order.
\<close>

definition chk :: "key \<Rightarrow> real \<times> real \<times> real \<Rightarrow> real \<times> real \<times> real \<Rightarrow> bool" where
  "chk loc pt c = list_all (\<lambda>i. nth3 loc i \<noteq> wild \<longrightarrow> isclose (nth3 c i) (nth3 pt i)) [0, 1, 2]"

definition where_ids :: "(real \<times> real \<times> real) list \<Rightarrow> key \<Rightarrow> real \<times> real \<times> real \<Rightarrow> nat list" where
  "where_ids pts_cra loc pt = filter (\<lambda>j. chk loc pt (pts_cra ! j)) [0..<length pts_cra]"

text \<open>
  \<open>np.argsort\<close>: the indices that sort the array (the order among equal values is of no
  consequence here, see the assertion). \<open>np.unique\<close>: the sorted distinct values.
\<close>

definition argsort :: "real list \<Rightarrow> nat list" where
  "argsort crd = sort_key (\<lambda>k. crd ! k) [0..<length crd]"

definition np_unique :: "real list \<Rightarrow> real list" where
  "np_unique crd = sort (remdups crd)"

text \<open>
  The body of the loop over \<open>locations.items()\<close> (lines 83-96), on the dictionaries \<open>ids\<close>
  and \<open>coords\<close>. A failed \<open>assert\<close> raises \<open>AssertionError\<close>. The printed line for a key
  without points is left out.
\<close>

definition locate ::
  "(real \<times> real \<times> real) list \<Rightarrow> key \<Rightarrow> real \<times> real \<times> real \<Rightarrow>
   (key \<times> nat list) list \<times> (key \<times> real list) list \<Rightarrow>
   error + (key \<times> nat list) list \<times> (key \<times> real list) list" where
  "locate pts_cra loc pt s =
     (case s of (ids, coords) \<Rightarrow>
        let found = where_ids pts_cra loc pt;
            ids1 = AList.update loc found ids
        in if length found = 0 then Inr (ids1, coords)
           else if has_wild loc then
             let dim = wild_index loc;
                 crd = map (\<lambda>j. nth3 (pts_cra ! j) dim) found;
                 sort = argsort crd;
                 ids2 = AList.update loc (map (\<lambda>k. found ! k) sort) ids1;
                 coords2 = AList.update loc (map (\<lambda>k. crd ! k) sort) coords
             in if length (np_unique crd) = length crd then Inr (ids2, coords2)
                else Inl AssertionError
           else Inr (ids1, coords))"

fun get_ids_loop ::
  "(key \<times> (real \<times> real \<times> real)) list \<Rightarrow> (real \<times> real \<times> real) list \<Rightarrow>
   (key \<times> nat list) list \<times> (key \<times> real list) list \<Rightarrow>
   error + (key \<times> nat list) list \<times> (key \<times> real list) list" where
  "get_ids_loop [] pts_cra s = Inr s"
| "get_ids_loop ((loc, pt) # rest) pts_cra s =
     ebind (locate pts_cra loc pt s) (\<lambda>s'. get_ids_loop rest pts_cra s')"

text \<open>
  \<open>get_ids\<close> on cylindrical coordinates (lines 48-98), and \<open>get_ids\<close> itself. The maxima
  and the minimum of an empty point set raise \<open>ValueError\<close>.
\<close>

definition get_ids_cra ::
  "(real \<times> real \<times> real) list \<Rightarrow> string \<Rightarrow>
   error + (key \<times> nat list) list \<times> (key \<times> real list) list" where
  "get_ids_cra pts_cra domain =
     ebind (np_max (map (\<lambda>c. nth3 c 1) pts_cra)) (\<lambda>ro.
     ebind (np_min (map (\<lambda>c. nth3 c 1) pts_cra)) (\<lambda>ri.
     ebind (np_max (map (\<lambda>c. nth3 c 2) pts_cra)) (\<lambda>h.
     ebind (domain_points domain ro h) (\<lambda>p.
       case p of (p_cir, p_rad, p_axi) \<Rightarrow>
         get_ids_loop (locations p_cir p_rad p_axi) pts_cra ([], [])))))"

definition get_ids ::
  "(real \<times> real \<times> real) list \<Rightarrow> string \<Rightarrow>
   error + (key \<times> nat list) list \<times> (key \<times> real list) list" where
  "get_ids pts_xyz domain = get_ids_cra (map xyz2cra pts_xyz) domain"

text \<open>
  The dictionary \<open>locations\<close> that \<open>get_ids\<close> builds for a point set and a domain (empty
  where \<open>get_ids\<close> raises before building it).
\<close>

definition locations_of :: "(real \<times> real \<times> real) list \<Rightarrow> string \<Rightarrow> (key \<times> (real \<times> real \<times> real)) list" where
  "locations_of pts_cra domain =
     (case ebind (np_max (map (\<lambda>c. nth3 c 1) pts_cra)) (\<lambda>ro.
           ebind (np_max (map (\<lambda>c. nth3 c 2) pts_cra)) (\<lambda>h.
           domain_points domain ro h)) of
        Inl e \<Rightarrow> []
      | Inr (p_cir, p_rad, p_axi) \<Rightarrow> locations p_cir p_rad p_axi)"

subsection \<open>Notions used to state the properties of get\_ids\<close>

text \<open>
  The coordinates of the points \<open>pt\<close> along the wildcard axis of a key; what \<open>get_ids\<close>
  has to store for a key with position \<open>target\<close>; and the invariant of its loop after the
  keys \<open>D\<close>.
\<close>

definition axis_coords :: "(real \<times> real \<times> real) list \<Rightarrow> key \<Rightarrow> nat list \<Rightarrow> real list" where
  "axis_coords pts_cra loc pt = map (\<lambda>j. nth3 (pts_cra ! j) (wild_index loc)) pt"

definition entry_ok ::
  "(real \<times> real \<times> real) list \<Rightarrow> key \<Rightarrow> real \<times> real \<times> real \<Rightarrow> nat list option \<Rightarrow> real list option \<Rightarrow> bool" where
  "entry_ok pts_cra loc target io co =
     (\<exists>pt. io = Some pt \<and> set pt = set (where_ids pts_cra loc target) \<and> distinct pt \<and>
        (if pt \<noteq> [] \<and> has_wild loc
         then co = Some (axis_coords pts_cra loc pt) \<and> sorted_wrt (<) (axis_coords pts_cra loc pt)
         else co = None))"

definition inv_ids ::
  "(real \<times> real \<times> real) list \<Rightarrow> (key \<times> (real \<times> real \<times> real)) list \<Rightarrow>
   (key \<times> nat list) list \<times> (key \<times> real list) list \<Rightarrow> bool" where
  "inv_ids pts_cra D s =
     (case s of (ids, coords) \<Rightarrow>
        fst ` set ids = fst ` set D \<and> fst ` set coords \<subseteq> fst ` set D \<and>
        (\<forall>(loc, target) \<in> set D. entry_ok pts_cra loc target (map_of ids loc) (map_of coords loc)))"

subsection \<open>The heartbeat overlay of post\_steady\_fluid.py\<close>

text \<open>\<open>f_scales["wss"][0]\<close>: the unit conversion factor of the wall shear stress.\<close>

definition f_scales_wss :: real where
  "f_scales_wss = 10000"

fun scale_wss :: "npfloat \<Rightarrow> npfloat" where
  "scale_wss (Fin x) = Fin (x * f_scales_wss)"
| "scale_wss NaN = NaN"

text \<open>
  \<open>plot_wss_heartbeat_overlay\<close> (lines 353-383): \<open>None\<close> when the plot is skipped, else the
  curves of the figure.
\<close>

definition plot_wss_heartbeat_overlay ::
  "npfloat list \<Rightarrow> int \<Rightarrow> error + (nat list \<times> npfloat list) list option" where
  "plot_wss_heartbeat_overlay wss_all steps_per_beat =
     (let wss_dyne = map scale_wss wss_all in
      ebind (py_floordiv (int (length wss_dyne)) steps_per_beat) (\<lambda>n_beats.
      if n_beats = 0 then Inr None
      else
        let beat_steps = py_range steps_per_beat in
        ebind (plot_beats (py_range n_beats) beat_steps wss_dyne steps_per_beat [])
          (\<lambda>curves. Inr (Some curves))))"

text \<open>
  The overlay that the specification describes for a series and a period: one window of
  \<open>P\<close> samples per full period, against the steps within the period.
\<close>

definition overlay_windows :: "'a list \<Rightarrow> nat \<Rightarrow> (nat list \<times> 'a list) list" where
  "overlay_windows xs P = map (\<lambda>i. ([0..<P], take P (drop (i * P) xs))) [0..<length xs div P]"

subsection \<open>Field extraction\<close>

text \<open>
  The dictionaries \<open>post_fluid\<close> and \<open>post_interface_time\<close>: for every key a
  \<open>defaultdict(list)\<close> from field names to the list of the arrays extracted so far.
\<close>

type_synonym post = "(key \<times> (string \<times> ndarray list) list) list"

definition field_list :: "(string \<times> 'a list) list \<Rightarrow> string \<Rightarrow> 'a list" where
  "field_list d f = (case map_of d f of None \<Rightarrow> [] | Some l \<Rightarrow> l)"

text \<open>
  \<open>post[loc][f] += [rhs]\<close>: \<open>post[loc]\<close> raises \<open>KeyError\<close> for a missing key before the
  right-hand side is evaluated.
\<close>

definition append_value :: "post \<Rightarrow> key \<Rightarrow> string \<Rightarrow> error + ndarray \<Rightarrow> error + post" where
  "append_value post loc f rhs =
     (case map_of post loc of
        None \<Rightarrow> Inl KeyError
      | Some d \<Rightarrow>
          ebind rhs (\<lambda>v. Inr (AList.update loc (AList.update f (field_list d f @ [v]) d) post)))"

text \<open>\<open>a[pt]\<close> for an array of point indices: the entries, or the rows, at these indices.\<close>

fun take_rows :: "ndarray \<Rightarrow> nat list \<Rightarrow> error + ndarray" where
  "take_rows (Arr1 xs) pt = ebind (take_ids xs pt) (\<lambda>v. Inr (Arr1 v))"
| "take_rows (Arr2 rows) pt = ebind (take_ids rows pt) (\<lambda>v. Inr (Arr2 v))"

text \<open>\<open>extract_results_fluid_centerline\<close> (lines 101-109).\<close>

fun centerline_loop :: "(key \<times> nat list) list \<Rightarrow> ndarray \<Rightarrow> real list \<Rightarrow> post \<Rightarrow> error + post" where
  "centerline_loop [] pressure velocity post = Inr post"
| "centerline_loop ((loc, pt) # rest) pressure velocity post =
     ebind (append_value post loc ''pressure'' (take_rows pressure pt)) (\<lambda>post1.
     ebind (append_value post1 loc ''velocity'' (take_rows (Arr1 velocity) pt)) (\<lambda>post2.
     centerline_loop rest pressure velocity post2))"

definition extract_results_fluid_centerline ::
  "post \<Rightarrow> vtu \<Rightarrow> (real \<times> real \<times> real) list \<Rightarrow> (key \<times> nat list) list \<Rightarrow> error + post" where
  "extract_results_fluid_centerline post res pts ids =
     ebind (GetArray res ''Pressure'') (\<lambda>pressure.
     ebind (GetArray res ''Velocity'') (\<lambda>v.
     ebind (norm_axis1 v) (\<lambda>velocity.
     centerline_loop ids pressure velocity post)))"

text \<open>The loop \<open>for loc, pt in ids.items(): post[loc][f] += [a[pt]]\<close> for one field.\<close>

fun append_loop :: "string \<Rightarrow> (key \<times> nat list) list \<Rightarrow> ndarray \<Rightarrow> post \<Rightarrow> error + post" where
  "append_loop f [] a post = Inr post"
| "append_loop f ((loc, pt) # rest) a post =
     ebind (append_value post loc f (take_rows a pt)) (\<lambda>post1. append_loop f rest a post1)"

text \<open>\<open>extract_results_wall\<close> (lines 112-117).\<close>

definition extract_results_wall ::
  "post \<Rightarrow> vtu \<Rightarrow> (real \<times> real \<times> real) list \<Rightarrow> (key \<times> nat list) list \<Rightarrow> error + post" where
  "extract_results_wall post res pts ids =
     ebind (GetArray res ''Pressure'') (\<lambda>pressure. append_loop ''pressure'' ids pressure post)"

text \<open>The lines that the extraction functions print, as far as the claims speak of them.\<close>

datatype message = Warning_WSS_array_not_found | Warning_mid_wall_ring_not_found

text \<open>
  Lines 122-133 of \<open>extract_wss\<close>: the wall shear stress magnitudes of a snapshot and the
  lines printed while choosing them.
\<close>

definition wss_array :: "vtu \<Rightarrow> (real \<times> real \<times> real) list \<Rightarrow> error + real list \<times> message list" where
  "wss_array res pts =
     (if HasArray res ''WSS'' then
        ebind (GetArray res ''WSS'') (\<lambda>w. ebind (norm_axis1 w) (\<lambda>wss. Inr (wss, [])))
      else if HasArray res ''Traction'' then
        ebind (GetArray res ''Traction'') (\<lambda>traction.
        ebind (norm_axis1 traction) (\<lambda>wss. Inr (wss, [])))
      else Inr (replicate (length pts) 0, [Warning_WSS_array_not_found]))"

text \<open>\<open>extract_wss\<close> (lines 120-136): the updated dictionary and the lines printed.\<close>

definition extract_wss ::
  "post \<Rightarrow> vtu \<Rightarrow> (real \<times> real \<times> real) list \<Rightarrow> (key \<times> nat list) list \<Rightarrow>
   error + post \<times> message list" where
  "extract_wss post res pts ids =
     ebind (wss_array res pts) (\<lambda>r.
       case r of (wss, out) \<Rightarrow>
         ebind (append_loop ''wss'' ids (Arr1 wss) post) (\<lambda>post1. Inr (post1, out)))"

subsection \<open>Time averaging\<close>

text \<open>
  \<open>np.mean(np.array(items), axis=0)\<close> for a list of arrays: the sum of the arrays along
  the first axis, divided by their number. Arrays of different shapes cannot be stacked
  (\<open>ValueError\<close>); the mean of an empty stack is NaN. (An array with no rows has no
  recorded width.)
\<close>

datatype pvalue = PArr ndarray | PNaN

definition add_rows :: "real list \<Rightarrow> real list \<Rightarrow> real list" where
  "add_rows xs ys = map2 (+) xs ys"

fun all_arr1 :: "ndarray list \<Rightarrow> real list list option" where
  "all_arr1 [] = Some []"
| "all_arr1 (Arr1 xs # rest) = (case all_arr1 rest of None \<Rightarrow> None | Some r \<Rightarrow> Some (xs # r))"
| "all_arr1 (Arr2 m # rest) = None"

fun all_arr2 :: "ndarray list \<Rightarrow> real list list list option" where
  "all_arr2 [] = Some []"
| "all_arr2 (Arr2 m # rest) = (case all_arr2 rest of None \<Rightarrow> None | Some r \<Rightarrow> Some (m # r))"
| "all_arr2 (Arr1 xs # rest) = None"

definition np_mean_axis0 :: "ndarray list \<Rightarrow> error + pvalue" where
  "np_mean_axis0 items =
     (if items = [] then Inr PNaN
      else case all_arr1 items of
        Some rows \<Rightarrow>
          if list_all (\<lambda>r. length r = length (hd rows)) rows
          then Inr (PArr (Arr1 (map (\<lambda>s. s / real (length rows))
                                  (foldl add_rows (hd rows) (tl rows)))))
          else Inl ValueError
      | None \<Rightarrow>
          (case all_arr2 items of
             Some mats \<Rightarrow>
               if list_all (\<lambda>m. map length m = map length (hd mats)) mats
               then Inr (PArr (Arr2 (map (map (\<lambda>s. s / real (length mats)))
                                       (foldl (map2 add_rows) (hd mats) (tl mats)))))
               else Inl ValueError
           | None \<Rightarrow> Inl ValueError))"

text \<open>Lines 160-164: every list of \<open>post_fluid\<close> is replaced by its mean over time.\<close>

fun mean_fields :: "(string \<times> ndarray list) list \<Rightarrow> error + (string \<times> pvalue) list" where
  "mean_fields [] = Inr []"
| "mean_fields ((f, l) # rest) =
     ebind (np_mean_axis0 l) (\<lambda>m. ebind (mean_fields rest) (\<lambda>r. Inr ((f, m) # r)))"

fun mean_post :: "post \<Rightarrow> error + (key \<times> (string \<times> pvalue) list) list" where
  "mean_post [] = Inr []"
| "mean_post ((loc, d) # rest) =
     ebind (mean_fields d) (\<lambda>e. ebind (mean_post rest) (\<lambda>r. Inr ((loc, e) # r)))"

text \<open>
  Lines 166-172: the lists of \<open>post_interface_time\<close> are kept as the time series and their
  means are stored in \<open>post_interface\<close>.
\<close>

fun interface_fields ::
  "(string \<times> ndarray list) list \<Rightarrow> (string \<times> pvalue) list \<Rightarrow> error + (string \<times> pvalue) list" where
  "interface_fields [] e = Inr e"
| "interface_fields ((f, l) # rest) e =
     ebind (np_mean_axis0 l) (\<lambda>m. interface_fields rest (AList.update f m e))"

fun interface_loop ::
  "post \<Rightarrow> (key \<times> (string \<times> pvalue) list) list \<Rightarrow> error + (key \<times> (string \<times> pvalue) list) list" where
  "interface_loop [] post_interface = Inr post_interface"
| "interface_loop ((loc, d) # rest) post_interface =
     (case map_of post_interface loc of
        None \<Rightarrow> Inl KeyError
      | Some e \<Rightarrow>
          ebind (interface_fields d e) (\<lambda>e'.
          interface_loop rest (AList.update loc e' post_interface)))"

text \<open>
  Lines 153-157: the loop over \<open>enumerate(results)\<close> from index \<open>i\<close> on, on the two
  dictionaries and the lines printed so far.
\<close>

fun results_loop ::
  "vtu list \<Rightarrow> int \<Rightarrow> (real \<times> real \<times> real) list \<Rightarrow> (key \<times> nat list) list \<Rightarrow>
   (key \<times> nat list) list \<Rightarrow> int \<Rightarrow> post \<times> post \<times> message list \<Rightarrow>
   error + post \<times> post \<times> message list" where
  "results_loop [] i pts ids_fluid ids_interface start_step s = Inr s"
| "results_loop (res # rest) i pts ids_fluid ids_interface start_step s =
     (case s of (post_fluid, post_interface_time, out) \<Rightarrow>
        if i \<ge> start_step then
          ebind (extract_results_fluid_centerline post_fluid res pts ids_fluid) (\<lambda>pf.
          ebind (extract_results_wall post_interface_time res pts ids_interface) (\<lambda>pit1.
          ebind (extract_wss pit1 res pts ids_interface) (\<lambda>r.
            case r of (pit2, printed) \<Rightarrow>
              results_loop rest (i + 1) pts ids_fluid ids_interface start_step
                (pf, pit2, out @ printed))))
        else results_loop rest (i + 1) pts ids_fluid ids_interface start_step s)"

text \<open>Lines 141-149: one empty \<open>defaultdict(list)\<close> for every key of \<open>ids\<close>.\<close>

definition empty_post :: "(key \<times> nat list) list \<Rightarrow> (key \<times> (string \<times> 'a) list) list" where
  "empty_post ids = fold (\<lambda>loc. AList.update loc []) (map fst ids) []"

text \<open>
  \<open>get_results\<close> (lines 139-174): the time-averaged fields of the fluid and of the
  interface, the time series of the interface, and the lines printed by \<open>extract_wss\<close>.
\<close>

definition get_results ::
  "vtu list \<Rightarrow> (real \<times> real \<times> real) list \<Rightarrow> (key \<times> nat list) list \<Rightarrow> (key \<times> nat list) list \<Rightarrow> int \<Rightarrow>
   error + ((key \<times> (string \<times> pvalue) list) list \<times> (key \<times> (string \<times> pvalue) list) list \<times> post)
           \<times> message list" where
  "get_results results pts ids_fluid ids_interface start_step =
     ebind (results_loop results 0 pts ids_fluid ids_interface start_step
              (empty_post ids_fluid, empty_post ids_interface, [])) (\<lambda>s.
       case s of (pf, pit, out) \<Rightarrow>
         ebind (mean_post pf) (\<lambda>post_fluid.
         ebind (interface_loop pit (empty_post ids_interface)) (\<lambda>post_interface.
         Inr ((post_fluid, post_interface, pit), out))))"

subsection \<open>The mid wall ring and the main function\<close>

text \<open>Lines 340-347 of \<open>extract_wss_mid_timeseries\<close>: the magnitudes of one snapshot.\<close>

definition wss_array_mid :: "vtu \<Rightarrow> (real \<times> real \<times> real) list \<Rightarrow> error + real list" where
  "wss_array_mid res pts =
     (if HasArray res ''WSS'' then
        ebind (GetArray res ''WSS'') (\<lambda>w. norm_axis1 w)
      else if HasArray res ''Traction'' then
        ebind (GetArray res ''Traction'') (\<lambda>w. norm_axis1 w)
      else Inr (replicate (length pts) 0))"

fun mid_loop :: "vtu list \<Rightarrow> (real \<times> real \<times> real) list \<Rightarrow> nat list \<Rightarrow> error + npfloat list" where
  "mid_loop [] pts pt = Inr []"
| "mid_loop (res # rest) pts pt =
     ebind (wss_array_mid res pts) (\<lambda>wss.
     ebind (take_ids wss pt) (\<lambda>v.
     ebind (mid_loop rest pts pt) (\<lambda>wss_all. Inr (np_mean v # wss_all))))"

text \<open>
  \<open>extract_wss_mid_timeseries\<close> (lines 330-350): \<open>None\<close> without the ring, else the mean
  magnitude on the ring for every snapshot; and the lines printed.
\<close>

definition extract_wss_mid_timeseries ::
  "vtu list \<Rightarrow> (real \<times> real \<times> real) list \<Rightarrow> (key \<times> nat list) list \<Rightarrow>
   error + npfloat list option \<times> message list" where
  "extract_wss_mid_timeseries results pts ids_interface =
     (let loc = (wild, LStr ''wall'', LStr ''mid'') in
      case map_of ids_interface loc of
        None \<Rightarrow> Inr (None, [Warning_mid_wall_ring_not_found])
      | Some pt \<Rightarrow> ebind (mid_loop results pts pt) (\<lambda>wss_all. Inr (Some wss_all, [])))"

text \<open>
  \<open>post_process\<close> (lines 186-215) on the list of snapshots that \<open>read_res\<close> has read from
  the directory: the tuple it returns and the lines printed by the extraction.
\<close>

record processed =
  data_fluid :: "(key \<times> (string \<times> pvalue) list) list"
  data_interface :: "(key \<times> (string \<times> pvalue) list) list"
  data_interface_time :: post
  coords_fluid :: "(key \<times> real list) list"
  coords_interface :: "(key \<times> real list) list"
  n_times :: nat
  wss_mid_all :: "npfloat list option"

definition post_process :: "vtu list \<Rightarrow> int \<Rightarrow> error + processed \<times> message list" where
  "post_process res start_step =
     (if length res = 0 then Inl (RuntimeError No_results_found)
      else if start_step \<ge> int (length res)
      then Inl (RuntimeError (Start_step_beyond start_step (length res)))
      else
        let pts = points (res ! 0) in
        ebind (get_ids pts ''fluid'') (\<lambda>f.
        ebind (get_ids pts ''interface'') (\<lambda>i.
        ebind (get_results res pts (fst f) (fst i) start_step) (\<lambda>g.
        ebind (extract_wss_mid_timeseries res pts (fst i)) (\<lambda>m.
          Inr (\<lparr>data_fluid = fst (fst g), data_interface = fst (snd (fst g)),
                data_interface_time = snd (snd (fst g)),
                coords_fluid = snd f, coords_interface = snd i,
                n_times = length res, wss_mid_all = fst m\<rparr>,
               snd g @ snd m))))))"

subsection \<open>Notions used to state the properties of the time averaging\<close>

text \<open>
  The list stored for a key and a field; dictionaries as association lists without
  repeated keys; and the effect of one extraction loop for a field \<open>f\<close> and an array \<open>a\<close>.
\<close>

definition series :: "post \<Rightarrow> key \<Rightarrow> string \<Rightarrow> ndarray list" where
  "series post loc f = (case map_of post loc of None \<Rightarrow> [] | Some d \<Rightarrow> field_list d f)"

definition inv_post :: "post \<Rightarrow> bool" where
  "inv_post post = (distinct (map fst post) \<and> (\<forall>loc d. map_of post loc = Some d \<longrightarrow> distinct (map fst d)))"

definition appended :: "string \<Rightarrow> (key \<times> nat list) list \<Rightarrow> ndarray \<Rightarrow> post \<Rightarrow> post \<Rightarrow> bool" where
  "appended f ids a post post' =
     (map fst post' = map fst post \<and> (inv_post post \<longrightarrow> inv_post post') \<and>
      (\<forall>loc. (\<forall>f'. f' \<noteq> f \<longrightarrow> series post' loc f' = series post loc f') \<and>
             (map_of ids loc = None \<longrightarrow> series post' loc f = series post loc f) \<and>
             (\<forall>pt. map_of ids loc = Some pt \<longrightarrow>
                (\<exists>v. take_rows a pt = Inr v \<and> series post' loc f = series post loc f @ [v]))))"

text \<open>
  The value array that the field extractor takes from one snapshot for a field and the point
  indices of a key, and the effect of the extraction over a list of snapshots.
\<close>

definition values_at :: "string \<Rightarrow> vtu \<Rightarrow> (real \<times> real \<times> real) list \<Rightarrow> nat list \<Rightarrow> error + ndarray" where
  "values_at f res pts pt =
     (if f = ''pressure'' then ebind (GetArray res ''Pressure'') (\<lambda>p. take_rows p pt)
      else if f = ''velocity'' then
        ebind (GetArray res ''Velocity'') (\<lambda>v. ebind (norm_axis1 v) (\<lambda>m. take_rows (Arr1 m) pt))
      else if f = ''wss'' then ebind (wss_array res pts) (\<lambda>r. take_rows (Arr1 (fst r)) pt)
      else Inl KeyError)"

definition grown ::
  "string list \<Rightarrow> (key \<times> nat list) list \<Rightarrow> vtu list \<Rightarrow> (real \<times> real \<times> real) list \<Rightarrow> post \<Rightarrow> post \<Rightarrow> bool" where
  "grown fs ids rs pts post post' =
     (map fst post' = map fst post \<and> (inv_post post \<longrightarrow> inv_post post') \<and>
      (\<forall>loc pt f. map_of ids loc = Some pt \<longrightarrow> f \<in> set fs \<longrightarrow>
         (\<exists>vs. map (\<lambda>res. values_at f res pts pt) rs = map Inr vs \<and>
               series post' loc f = series post loc f @ vs)))"

text \<open>
  The snapshots of the averaging window, from \<open>start_step\<close> to the last; the elementwise
  arithmetic mean over time of a list of value arrays; and the entry of a time-averaged
  dictionary.
\<close>

definition window :: "vtu list \<Rightarrow> int \<Rightarrow> vtu list" where
  "window results start_step = drop (nat start_step) results"

definition mean_rows :: "real list list \<Rightarrow> real list" where
  "mean_rows rows =
     map (\<lambda>j. sum_list (map (\<lambda>r. r ! j) rows) / real (length rows)) [0..<length (hd rows)]"

definition avg_at :: "(key \<times> (string \<times> pvalue) list) list \<Rightarrow> key \<Rightarrow> string \<Rightarrow> pvalue option" where
  "avg_at a loc f = (case map_of a loc of None \<Rightarrow> None | Some e \<Rightarrow> map_of e f)"

section \<open>Properties of the regression comparator\<close>

subsection \<open>The iteration-count loop and the recorded iteration counts\<close>

lemma compare_iterations_loop_char:
  "\<forall>t\<in>set ts. t < length (iterations r) \<and> t < length (iterations x) \<Longrightarrow>
   compare_iterations_loop ts r x tol fs =
     Inr (fs @ map (iter_failure_at r x tol) (filter (iter_violation r x tol) ts))"
  by (induction ts arbitrary: fs) (auto simp: Let_def iter_violation_def iter_failure_at_def)

lemma compare_iterations_char:
  assumes "time_steps r \<le> length (iterations r)" "time_steps r \<le> length (iterations x)"
  shows "compare_iterations r x tol =
     (let v = filter (iter_violation r x tol) [0..<time_steps r] in
      if v = [] then Inr True
      else Inl (ComparisonError (IterationDiffs (map (iter_failure_at r x tol) v))))"
proof -
  have "\<forall>t\<in>set [0..<time_steps r]. t < length (iterations r) \<and> t < length (iterations x)"
    using assms by auto
  from compare_iterations_loop_char[OF this, of tol "[]"]
  show ?thesis by (simp add: compare_iterations_def Let_def)
qed

lemma process_time_steps_iterations:
  "process_time_steps f xs t cd = Inr cd' \<Longrightarrow>
     time_steps cd' = time_steps cd \<and>
     (length (iterations cd) = t \<longrightarrow> iterations cd' = iterations cd @ map iteration_count xs) \<and>
     (t + length xs \<le> length (iterations cd) \<longrightarrow> iterations cd' = iterations cd)"
proof (induction xs arbitrary: t cd)
  case Nil
  then show ?case by simp
next
  case (Cons a xs)
  then show ?case
    by (cases a) (auto simp: Let_def split: if_splits)
qed

lemma process_fields_iterations:
  "length (iterations cd) = time_steps cd \<Longrightarrow> process_fields kvs cd = Inr cd' \<Longrightarrow>
     length (iterations cd') = time_steps cd' \<and>
     (time_steps cd = 0 \<longrightarrow> iterations cd' = first_field_counts kvs) \<and>
     (time_steps cd \<noteq> 0 \<longrightarrow> iterations cd' = iterations cd)"
proof (induction kvs arbitrary: cd)
  case Nil
  then show ?case by auto
next
  case (Cons kv kvs)
  obtain k v where kv: "kv = (k, v)" by (cases kv)
  show ?case
  proof (cases "\<exists>tse. v = JArr tse")
    case False
    then have e1: "process_fields (kv # kvs) cd = process_fields kvs cd"
      and e2: "first_field_counts (kv # kvs) = first_field_counts kvs"
      using kv by (cases v; simp)+
    show ?thesis
      unfolding e2 using Cons.IH[OF Cons.prems(1)] Cons.prems(2)[unfolded e1] by blast
  next
    case True
    then obtain tse where JArr: "v = JArr tse" by blast
    let ?n = "length tse"
    from Cons.prems(2) kv JArr have ok: "time_steps cd = 0 \<or> time_steps cd = ?n"
      by (auto simp: Let_def split: if_splits)
    define cd2 where "cd2 = (if time_steps cd = 0 then cd\<lparr>time_steps := ?n\<rparr> else cd)\<lparr>errors := AList.update k [] (errors (if time_steps cd = 0 then cd\<lparr>time_steps := ?n\<rparr> else cd))\<rparr>"
    from Cons.prems(2) kv JArr ok obtain cd3 where
      p: "process_time_steps k tse 0 cd2 = Inr cd3" and r: "process_fields kvs cd3 = Inr cd'"
      by (auto simp: Let_def cd2_def split: if_splits sum.splits)
    have it2: "iterations cd2 = iterations cd" and ts2: "time_steps cd2 = ?n"
      using ok by (auto simp: cd2_def)
    note P = process_time_steps_iterations[OF p]
    from P ts2 have t3: "time_steps cd3 = ?n" by simp
    show ?thesis
    proof (cases "time_steps cd = 0")
      case True
      with Cons.prems(1) have e: "iterations cd = []" by simp
      with P it2 have i3: "iterations cd3 = map iteration_count tse" by simp
      then have inv3: "length (iterations cd3) = time_steps cd3" using t3 by simp
      note IH = Cons.IH[OF inv3 r]
      show ?thesis
      proof (cases tse)
        case Nil
        then have "time_steps cd3 = 0" "first_field_counts (kv # kvs) = first_field_counts kvs"
          using t3 kv JArr by simp_all
        with IH True show ?thesis by auto
      next
        case (Cons a list)
        then have "time_steps cd3 \<noteq> 0" "first_field_counts (kv # kvs) = map iteration_count tse"
          using t3 kv JArr by simp_all
        with IH True i3 show ?thesis by auto
      qed
    next
      case False
      with ok have n: "time_steps cd = ?n" by simp
      with Cons.prems(1) it2 P have i3: "iterations cd3 = iterations cd" by simp
      then have inv3: "length (iterations cd3) = time_steps cd3" using Cons.prems(1) n t3 by simp
      from Cons.IH[OF inv3 r] i3 t3 False n show ?thesis by auto
    qed
  qed
qed

lemma process_fields_init:
  assumes "process_fields kvs \<lparr>time_steps = 0, iterations = [], errors = []\<rparr> = Inr cd"
  shows "length (iterations cd) = time_steps cd" and "iterations cd = first_field_counts kvs"
proof -
  have inv: "length (iterations \<lparr>time_steps = 0, iterations = [], errors = []\<rparr>)
            = time_steps \<lparr>time_steps = 0, iterations = [], errors = []\<rparr>" by simp
  from process_fields_iterations[OF inv assms]
  show "length (iterations cd) = time_steps cd" and "iterations cd = first_field_counts kvs"
    by auto
qed

lemma extract_inv:
  assumes "extract_convergence_data data = Inr cd"
  shows "length (iterations cd) = time_steps cd"
  using assms
  by (auto simp: extract_convergence_data_def split: sum.splits json.splits dest: process_fields_init(1))

lemma extract_iterations:
  assumes "select_errors data = Inr (JObj kvs)" "extract_convergence_data data = Inr cd"
  shows "iterations cd = first_field_counts kvs"
  using assms
  by (auto simp: extract_convergence_data_def dest: process_fields_init(2))

subsection \<open>Exit code\<close>

lemma main_body_error: "main_body a rl tld cv = Inl e \<Longrightarrow> main a rl tld cv = 1"
  by (cases e) (simp_all add: main_def)

lemma main_zero_passes_iterations:
  assumes "extract_convergence_data ref_json = Inr rd" "extract_convergence_data test_json = Inr td"
      and "compare_iterations rd td (iter_tolerance a) = Inl e"
  shows "main a (Inr ref_json) (Inr test_json) cv = 1"
proof -
  have "\<exists>e'. main_body a (Inr ref_json) (Inr test_json) cv = Inl e'"
    using assms by (auto simp: main_body_def ebind_def split: sum.splits)
  then show ?thesis using main_body_error by blast
qed

text \<open>
  Claim C8. For two convergence logs that \<open>extract_convergence_data\<close> accepts and that
  have the same number of time steps, \<open>compare_iterations\<close> passes exactly when no time
  step's iteration counts differ by more than the tolerance; otherwise it raises one
  \<open>ComparisonError\<close> whose report lists every violating time step, in order, none left
  out after the first. Any violation at the tolerance of the command line makes \<open>main\<close>
  return exit code 1, and the default tolerance is 2.
\<close>

theorem compare_iterations_collects_all:
  assumes "extract_convergence_data ref_json = Inr rd"
      and "extract_convergence_data test_json = Inr td"
      and "time_steps rd = time_steps td"
  shows "compare_iterations rd td tol =
           (let v = filter (iter_violation rd td tol) [0..<time_steps rd] in
            if v = [] then Inr True
            else Inl (ComparisonError (IterationDiffs (map (iter_failure_at rd td tol) v))))
         \<and> ((\<exists>t<time_steps rd. iter_violation rd td (iter_tolerance a) t)
              \<longrightarrow> main a (Inr ref_json) (Inr test_json) cv = 1)
         \<and> iter_tolerance (parse_args None et rv tv) = 2"
proof -
  have l1: "time_steps rd \<le> length (iterations rd)" using extract_inv[OF assms(1)] by simp
  have l2: "time_steps rd \<le> length (iterations td)" using extract_inv[OF assms(2)] assms(3) by simp
  note C = compare_iterations_char[OF l1 l2]
  have "main a (Inr ref_json) (Inr test_json) cv = 1"
    if "\<exists>t<time_steps rd. iter_violation rd td (iter_tolerance a) t"
  proof -
    from that have "filter (iter_violation rd td (iter_tolerance a)) [0..<time_steps rd] \<noteq> []"
      by (auto simp: filter_empty_conv)
    with C[of "iter_tolerance a"] obtain e where "compare_iterations rd td (iter_tolerance a) = Inl e"
      by (auto simp: Let_def)
    from main_zero_passes_iterations[OF assms(1,2) this] show ?thesis .
  qed
  then show ?thesis using C[of tol] by (simp add: parse_args_def)
qed

lemma ex_ref: "extract_convergence_data [(''error'', JObj [(''fluid'', JArr [JArr [JNum 1, JNum (1/2)], JArr [JNum 1]])])]
  = Inr \<lparr>time_steps = 2, iterations = [2, 1], errors = [(''fluid'', [JNum (1/2), JNum 1])]\<rparr>"
  by (simp add: extract_convergence_data_def select_errors_def Let_def)

lemma ex_test: "extract_convergence_data [(''error'', JObj [(''fluid'', JArr [JArr [JNum 1, JNum 1, JNum 1, JNum 1, JNum (1/2)], JArr [JNum 1]])])]
  = Inr \<lparr>time_steps = 2, iterations = [5, 1], errors = [(''fluid'', [JNum (1/2), JNum 1])]\<rparr>"
  by (simp add: extract_convergence_data_def select_errors_def Let_def)

theorem compare_iterations_collects_all_witness:
  "compare_iterations
     \<lparr>time_steps = 2, iterations = [2, 1], errors = [(''fluid'', [JNum (1/2), JNum 1])]\<rparr>
     \<lparr>time_steps = 2, iterations = [5, 1], errors = [(''fluid'', [JNum (1/2), JNum 1])]\<rparr> 2
   = Inl (ComparisonError (IterationDiffs [IterFailure 0 2 5 3 2]))
   \<and> main (parse_args None None None None)
        (Inr [(''error'', JObj [(''fluid'', JArr [JArr [JNum 1, JNum (1/2)], JArr [JNum 1]])])])
        (Inr [(''error'', JObj [(''fluid'', JArr [JArr [JNum 1, JNum 1, JNum 1, JNum 1, JNum (1/2)], JArr [JNum 1]])])])
        (\<lambda>r t. Inr ()) = 1"
proof -
  let ?rd = "\<lparr>time_steps = 2, iterations = [2, 1], errors = [(''fluid'', [JNum (1/2), JNum 1])]\<rparr>"
  let ?td = "\<lparr>time_steps = 2, iterations = [5, 1], errors = [(''fluid'', [JNum (1/2), JNum 1])]\<rparr>"
  let ?a = "parse_args None None None None"
  have ts: "time_steps ?rd = time_steps ?td" by simp
  have v: "\<exists>t<time_steps ?rd. iter_violation ?rd ?td (iter_tolerance ?a) t"
    by (rule exI[of _ 0]) (simp add: iter_violation_def parse_args_def)
  have f: "filter (iter_violation ?rd ?td 2) [0..<time_steps ?rd] = [0]"
    by (simp add: iter_violation_def upt_rec[of 0] upt_rec[of 1] upt_rec[of 2] eval_nat_numeral)
  from compare_iterations_collects_all[OF ex_ref ex_test ts, of 2 ?a "\<lambda>r t. Inr ()" None None None] v f
  show ?thesis by (simp add: iter_failure_at_def)
qed

text \<open>
  Claim C10. The iteration counts that \<open>extract_convergence_data\<close> records are those of
  the first field whose time-step list has an entry (\<open>first_field_counts\<close>); no later
  field contributes. Hence two logs pass the iteration check whenever the counts of these
  first fields agree within the tolerance, whatever the iteration counts of the later fields.
\<close>

theorem iterations_from_first_field_only:
  assumes "select_errors ref_json = Inr (JObj rk)"
      and "extract_convergence_data ref_json = Inr rd"
      and "select_errors test_json = Inr (JObj tk)"
      and "extract_convergence_data test_json = Inr td"
      and "time_steps rd = time_steps td"
  shows "iterations rd = first_field_counts rk \<and> iterations td = first_field_counts tk \<and>
         ((\<forall>t<time_steps rd. \<bar>int (first_field_counts tk ! t) - int (first_field_counts rk ! t)\<bar> \<le> tol)
            \<longrightarrow> compare_iterations rd td tol = Inr True)"
proof -
  have ir: "iterations rd = first_field_counts rk" by (rule extract_iterations[OF assms(1,2)])
  have it: "iterations td = first_field_counts tk" by (rule extract_iterations[OF assms(3,4)])
  have l1: "time_steps rd \<le> length (iterations rd)" using extract_inv[OF assms(2)] by simp
  have l2: "time_steps rd \<le> length (iterations td)" using extract_inv[OF assms(4)] assms(5) by simp
  have "compare_iterations rd td tol = Inr True"
    if "\<forall>t<time_steps rd. \<bar>int (first_field_counts tk ! t) - int (first_field_counts rk ! t)\<bar> \<le> tol"
  proof -
    from that have "filter (iter_violation rd td tol) [0..<time_steps rd] = []"
      unfolding ir[symmetric] it[symmetric] by (auto simp: filter_empty_conv iter_violation_def)
    then show ?thesis using compare_iterations_char[OF l1 l2, of tol] by simp
  qed
  with ir it show ?thesis by blast
qed

lemma ex10_ref: "extract_convergence_data
    [(''error'', JObj [(''fluid'', JArr [JArr [JNum 1, JNum (1/2)]]), (''solid'', JArr [JArr [JNum 1]])])]
  = Inr \<lparr>time_steps = 1, iterations = [2], errors = [(''fluid'', [JNum (1/2)]), (''solid'', [JNum 1])]\<rparr>"
  by (simp add: extract_convergence_data_def select_errors_def Let_def)

lemma ex10_test: "extract_convergence_data
    [(''error'', JObj [(''fluid'', JArr [JArr [JNum 1, JNum (1/2)]]),
                       (''solid'', JArr [JArr [JNum 1, JNum 1, JNum 1, JNum 1, JNum 1, JNum 1, JNum 1]])])]
  = Inr \<lparr>time_steps = 1, iterations = [2], errors = [(''fluid'', [JNum (1/2)]), (''solid'', [JNum 1])]\<rparr>"
  by (simp add: extract_convergence_data_def select_errors_def Let_def)

theorem iterations_from_first_field_only_witness:
  "compare_iterations
     \<lparr>time_steps = 1, iterations = [2], errors = [(''fluid'', [JNum (1/2)]), (''solid'', [JNum 1])]\<rparr>
     \<lparr>time_steps = 1, iterations = [2], errors = [(''fluid'', [JNum (1/2)]), (''solid'', [JNum 1])]\<rparr> 2
   = Inr True
   \<and> first_field_counts [(''fluid'', JArr [JArr [JNum 1, JNum (1/2)]]),
                       (''solid'', JArr [JArr [JNum 1, JNum 1, JNum 1, JNum 1, JNum 1, JNum 1, JNum 1]])] = [2]"
proof -
  let ?rk = "[(''fluid'', JArr [JArr [JNum 1, JNum (1/2)]]), (''solid'', JArr [JArr [JNum 1]])]"
  let ?tk = "[(''fluid'', JArr [JArr [JNum 1, JNum (1/2)]]),
              (''solid'', JArr [JArr [JNum 1, JNum 1, JNum 1, JNum 1, JNum 1, JNum 1, JNum 1]])]"
  have s1: "select_errors [(''error'', JObj ?rk)] = Inr (JObj ?rk)" by (simp add: select_errors_def)
  have s2: "select_errors [(''error'', JObj ?tk)] = Inr (JObj ?tk)" by (simp add: select_errors_def)
  have ts: "time_steps \<lparr>time_steps = 1, iterations = [2], errors = [(''fluid'', [JNum (1/2)]), (''solid'', [JNum 1])]\<rparr>
    = time_steps \<lparr>time_steps = 1, iterations = [2], errors = [(''fluid'', [JNum (1/2)]), (''solid'', [JNum 1])]\<rparr>" by simp
  from iterations_from_first_field_only[OF s1 ex10_ref s2 ex10_test ts, of 2]
  show ?thesis by simp
qed

subsection \<open>The error-norm check\<close>

lemma rel_diff_eq: "0 \<le> r \<Longrightarrow> rel_diff r t = Inr (stated_diff r t)"
  by (simp add: rel_diff_def stated_diff_def py_truediv_def)

lemma steps_char:
  "\<forall>t\<in>set ts. t < length re \<and> t < length te \<and> as_number (re ! t) \<noteq> None \<and>
      as_number (te ! t) \<noteq> None \<and> 0 \<le> number_at re t \<Longrightarrow>
   compare_error_norms_steps f ts re te tol fs =
     Inr (fs @ map (norm_failure_at f re te tol)
                (filter (\<lambda>t. stated_diff (number_at re t) (number_at te t) > tol) ts))"
  by (induction ts arbitrary: fs)
     (auto simp: rel_diff_eq norm_failure_at_def number_at_def)

lemma common_fields_keys:
  "f \<in> set (common_fields r x) \<Longrightarrow> map_of (errors r) f \<noteq> None \<and> map_of (errors x) f \<noteq> None"
  by (auto simp: common_fields_def map_of_eq_None_iff)

lemma fields_char:
  assumes "\<forall>f\<in>set fs. map_of (errors r) f \<noteq> None \<and> map_of (errors x) f \<noteq> None \<and>
             (\<forall>t < time_steps r.
               t < length (field_errors r f) \<and> t < length (field_errors x f) \<and>
               as_number (field_errors r f ! t) \<noteq> None \<and> as_number (field_errors x f ! t) \<noteq> None \<and>
               0 \<le> number_at (field_errors r f) t)"
  shows "compare_error_norms_fields fs r x tol acc = Inr (acc @ concat (map (field_failures r x tol) fs))"
  using assms
proof (induction fs arbitrary: acc)
  case Nil
  then show ?case by simp
next
  case (Cons f fs)
  from Cons.prems obtain re te where
    m: "map_of (errors r) f = Some re" "map_of (errors x) f = Some te" by auto
  then have fe: "field_errors r f = re" "field_errors x f = te" by (simp_all add: field_errors_def)
  have "\<forall>t\<in>set [0..<time_steps r]. t < length re \<and> t < length te \<and>
           as_number (re ! t) \<noteq> None \<and> as_number (te ! t) \<noteq> None \<and> 0 \<le> number_at re t"
    using Cons.prems fe by auto
  from steps_char[OF this, of f tol acc]
  have s: "compare_error_norms_steps f [0..<time_steps r] re te tol acc = Inr (acc @ field_failures r x tol f)"
    by (simp add: field_failures_def fe)
  have "compare_error_norms_fields fs r x tol (acc @ field_failures r x tol f)
        = Inr ((acc @ field_failures r x tol f) @ concat (map (field_failures r x tol) fs))"
    using Cons.prems by (intro Cons.IH) auto
  then show ?case using m s by simp
qed

text \<open>
  Claim C7. On logs of residual norms (every compared entry a number, no reference norm
  negative), whatever the order \<open>fs\<close> in which the set of common fields is iterated: for
  every field and time step the error-norm check compares \<open>|test - ref| / ref\<close> against the
  relative tolerance when the reference value is nonzero, and the absolute difference
  \<open>|test - ref|\<close> against the same tolerance when the reference value is exactly zero. It
  passes when no entry exceeds the tolerance and otherwise raises one \<open>ComparisonError\<close>
  with the failing entries. A reference norm of exactly zero is compared without any
  division, so no division error is raised for it.
\<close>

theorem error_norm_relative_or_absolute:
  "(0 \<le> ref_err \<longrightarrow>
      rel_diff ref_err test_err =
        Inr (if ref_err \<noteq> 0 then \<bar>test_err - ref_err\<bar> / ref_err else \<bar>test_err - ref_err\<bar>)) \<and>
   rel_diff 0 test_err = Inr \<bar>test_err\<bar> \<and>
   (residual_norm_logs r x \<longrightarrow> set fs = set (common_fields r x) \<longrightarrow>
      compare_error_norms_in fs r x tol =
        (let failures = concat (map (field_failures r x tol) fs) in
         if failures \<noteq> [] then Inl (ComparisonError (ErrorNormDiffs failures)) else Inr True))"
proof -
  have a: "0 \<le> ref_err \<longrightarrow>
      rel_diff ref_err test_err =
        Inr (if ref_err \<noteq> 0 then \<bar>test_err - ref_err\<bar> / ref_err else \<bar>test_err - ref_err\<bar>)"
    using rel_diff_eq[of ref_err test_err] by (simp add: stated_diff_def)
  have z: "rel_diff 0 test_err = Inr \<bar>test_err\<bar>"
    by (simp add: rel_diff_def)
  have b: "compare_error_norms_in fs r x tol =
        (let failures = concat (map (field_failures r x tol) fs) in
         if failures \<noteq> [] then Inl (ComparisonError (ErrorNormDiffs failures)) else Inr True)"
    if n: "residual_norm_logs r x" and s: "set fs = set (common_fields r x)"
  proof -
    have "\<forall>f\<in>set fs. map_of (errors r) f \<noteq> None \<and> map_of (errors x) f \<noteq> None \<and>
             (\<forall>t < time_steps r.
               t < length (field_errors r f) \<and> t < length (field_errors x f) \<and>
               as_number (field_errors r f ! t) \<noteq> None \<and> as_number (field_errors x f ! t) \<noteq> None \<and>
               0 \<le> number_at (field_errors r f) t)"
      using n common_fields_keys[of _ r x] unfolding residual_norm_logs_def list_all_iff s by auto
    from fields_char[OF this, of tol "[]"] show ?thesis
      by (simp add: compare_error_norms_in_def Let_def)
  qed
  from a z b show ?thesis by blast
qed

theorem error_norm_relative_or_absolute_witness:
  "residual_norm_logs \<lparr>time_steps = 2, iterations = [1, 1], errors = [(''fluid'', [JNum 0, JNum 2])]\<rparr>
                      \<lparr>time_steps = 2, iterations = [1, 1], errors = [(''fluid'', [JNum (1/2), JNum (21/10)])]\<rparr>
   \<and> compare_error_norms_in [''fluid'']
       \<lparr>time_steps = 2, iterations = [1, 1], errors = [(''fluid'', [JNum 0, JNum 2])]\<rparr>
       \<lparr>time_steps = 2, iterations = [1, 1], errors = [(''fluid'', [JNum (1/2), JNum (21/10)])]\<rparr>
       (1/10)
     = Inl (ComparisonError (ErrorNormDiffs [NormFailure ''fluid'' 0 0 (1/2) (1/2) (1/10)]))
   \<and> rel_diff 2 (21/10) = Inr (\<bar>21/10 - 2\<bar> / 2)"
proof -
  let ?r = "\<lparr>time_steps = 2, iterations = [1, 1], errors = [(''fluid'', [JNum 0, JNum 2])]\<rparr>"
  let ?x = "\<lparr>time_steps = 2, iterations = [1, 1], errors = [(''fluid'', [JNum (1/2), JNum (21/10)])]\<rparr>"
  have cf: "common_fields ?r ?x = [''fluid'']" by (simp add: common_fields_def)
  have n: "residual_norm_logs ?r ?x"
    unfolding residual_norm_logs_def cf
    by (simp add: field_errors_def number_at_def upt_rec[of 0] upt_rec[of 1] upt_rec[of 2] eval_nat_numeral
          del: not_None_eq)
  have s: "set [''fluid''] = set (common_fields ?r ?x)" unfolding cf by simp
  have ff: "field_failures ?r ?x (1/10) ''fluid'' = [NormFailure ''fluid'' 0 0 (1/2) (1/2) (1/10)]"
    by (simp add: field_failures_def field_errors_def norm_failure_at_def number_at_def stated_diff_def
          upt_rec[of 0] upt_rec[of 1] upt_rec[of 2] eval_nat_numeral)
  note T = error_norm_relative_or_absolute[of 2 "21/10" ?r ?x "[''fluid'']" "1/10"]
  have a: "compare_error_norms_in [''fluid''] ?r ?x (1/10)
     = Inl (ComparisonError (ErrorNormDiffs [NormFailure ''fluid'' 0 0 (1/2) (1/2) (1/10)]))"
    using T[THEN conjunct2, THEN conjunct2, rule_format, OF n s] ff by simp
  have b: "rel_diff 2 (21/10) = Inr (\<bar>21/10 - 2\<bar> / 2)"
    using T[THEN conjunct1] by simp
  from n a b show ?thesis by blast
qed

section \<open>Properties of the heartbeat overlay\<close>

lemma py_slice_window:
  assumes "(i + 1) * P \<le> length xs"
  shows "py_slice xs (int i * int P) (int i * int P + int P) = take P (drop (i * P) xs)"
proof -
  have "int i * int P = int (i * P)" by simp
  then have a: "slice_bound (length xs) (int i * int P) = i * P"
    using assms by (simp add: slice_bound_def del: of_nat_mult of_nat_add)
  have "int i * int P + int P = int ((i + 1) * P)" by (simp add: algebra_simps)
  then have b: "slice_bound (length xs) (int i * int P + int P) = (i + 1) * P"
    using assms by (simp add: slice_bound_def del: of_nat_mult of_nat_add)
  show ?thesis by (simp add: py_slice_def a b Let_def)
qed

lemma plot_beats_windows:
  assumes "\<forall>i\<in>set is. (i + 1) * P \<le> length xs"
  shows "plot_beats is [0..<P] xs (int P) acc =
           Inr (acc @ map (\<lambda>i. ([0..<P], take P (drop (i * P) xs))) is)"
  using assms
proof (induction "is" arbitrary: acc)
  case Nil
  then show ?case by simp
next
  case (Cons i "is")
  then have w: "(i + 1) * P \<le> length xs" by simp
  then have "P \<le> length xs - i * P" by simp
  then have len: "length (take P (drop (i * P) xs)) = P" by simp
  show ?case using Cons py_slice_window[OF w] len by (simp add: Let_def)
qed

lemma div_window_bound: "0 < P \<Longrightarrow> i < L div P \<Longrightarrow> (i + 1) * P \<le> (L::nat)"
proof -
  assume "0 < P" "i < L div P"
  then have "i + 1 \<le> L div P" by simp
  then have "(i + 1) * P \<le> (L div P) * P" by (rule mult_le_mono1)
  also have "\<dots> \<le> L" by simp
  finally show ?thesis .
qed

lemma overlay_curves:
  assumes "0 < P"
  shows "plot_beats (py_range (int (length xs) div int P)) (py_range (int P)) xs (int P) []
         = Inr (overlay_windows xs P)"
proof -
  have e: "int (length xs) div int P = int (length xs div P)" by (simp add: zdiv_int)
  have r: "py_range (int (length xs) div int P) = [0..<length xs div P]"
    by (simp only: py_range_def e nat_int)
  have r2: "py_range (int P) = [0..<P]" by (simp add: py_range_def)
  have "\<forall>i\<in>set [0..<length xs div P]. (i + 1) * P \<le> length xs"
    using div_window_bound[OF assms] by auto
  from plot_beats_windows[OF this, of "[]"] show ?thesis
    unfolding r r2 overlay_windows_def by simp
qed

lemma concat_windows:
  "n * P \<le> length xs \<Longrightarrow> concat (map (\<lambda>i. take P (drop (i * P) xs)) [0..<n]) = take (n * P) xs"
proof (induction n)
  case 0
  then show ?case by simp
next
  case (Suc n)
  then have "concat (map (\<lambda>i. take P (drop (i * P) xs)) [0..<n]) = take (n * P) xs" by simp
  moreover have "take (n * P) xs @ take P (drop (n * P) xs) = take (n * P + P) xs"
    by (simp add: take_add)
  ultimately show ?case by (simp add: add.commute)
qed

lemma overlay_windows_props:
  assumes "0 < P"
  shows "length (overlay_windows xs P) = length xs div P"
    and "\<forall>i < length xs div P. overlay_windows xs P ! i = ([0..<P], take P (drop (i * P) xs))
            \<and> length (snd (overlay_windows xs P ! i)) = P"
    and "concat (map snd (overlay_windows xs P)) = take (length xs div P * P) xs"
proof -
  show "length (overlay_windows xs P) = length xs div P" by (simp add: overlay_windows_def)
  show "\<forall>i < length xs div P. overlay_windows xs P ! i = ([0..<P], take P (drop (i * P) xs))
            \<and> length (snd (overlay_windows xs P ! i)) = P"
  proof (intro allI impI)
    fix i assume i: "i < length xs div P"
    from div_window_bound[OF assms i] have "P \<le> length xs - i * P" by simp
    then show "overlay_windows xs P ! i = ([0..<P], take P (drop (i * P) xs))
            \<and> length (snd (overlay_windows xs P ! i)) = P"
      using i by (simp add: overlay_windows_def)
  qed
  have "length xs div P * P \<le> length xs" by simp
  from concat_windows[OF this] show "concat (map snd (overlay_windows xs P)) = take (length xs div P * P) xs"
    by (simp add: overlay_windows_def comp_def)
qed

lemma wss_mid_series_length: "wss_mid_series rs = Inr xs \<Longrightarrow> length xs = length rs"
  by (induction rs arbitrary: xs)
     (auto simp: ebind_def split: option.splits rvalue.splits sum.splits)

lemma wss_mid_series_head:
  "wss_mid_series (r # rs) = Inr xs \<Longrightarrow> map_of r ''wss_mid_mean'' \<noteq> None"
  by (auto split: option.splits)

text \<open>
  Claim C4. For a series of length \<open>L\<close> and a positive \<open>steps_per_beat = P\<close>, both
  heartbeat plots draw exactly \<open>L div P\<close> windows, each of length \<open>P\<close>; window \<open>i\<close> is
  the samples from \<open>i * P\<close> up to \<open>(i + 1) * P\<close>; together they are the first
  \<open>(L div P) * P\<close> samples, the remainder is dropped; and when \<open>L div P = 0\<close> no overlay
  is drawn. (In post\_steady\_fluid.py the series is scaled to dyne/cm2 first; in
  post\_fluid.py an empty list of results raises before anything is drawn.)
\<close>

theorem heartbeat_overlay_windows:
  assumes "0 < P"
  shows "plot_wss_heartbeat_overlay wss_all (int P) =
           Inr (if length wss_all div P = 0 then None
                else Some (overlay_windows (map scale_wss wss_all) P))
       \<and> (wss_mid_series results = Inr wss_mid \<longrightarrow>
             plot_wss_heartbeats results (int P) =
               (if results = [] then Inl IndexError
                else Inr (if length wss_mid div P = 0 then None
                          else Some (overlay_windows wss_mid P))))
       \<and> length (overlay_windows xs P) = length xs div P
       \<and> (\<forall>i < length xs div P.
             overlay_windows xs P ! i = ([0..<P], take P (drop (i * P) xs))
             \<and> length (snd (overlay_windows xs P ! i)) = P)
       \<and> concat (map snd (overlay_windows xs P)) = take (length xs div P * P) xs"
proof -
  have nz: "int P \<noteq> 0" using assms by simp
  have d: "\<And>n. (int n div int P = 0) = (n div P = 0)"
    by (metis of_nat_eq_0_iff zdiv_int)
  have a: "plot_wss_heartbeat_overlay wss_all (int P) =
           Inr (if length wss_all div P = 0 then None
                else Some (overlay_windows (map scale_wss wss_all) P))"
    using overlay_curves[OF assms, of "map scale_wss wss_all"] nz d[of "length wss_all"]
    by (simp add: plot_wss_heartbeat_overlay_def py_floordiv_def ebind_def Let_def)
  have b: "plot_wss_heartbeats results (int P) =
               (if results = [] then Inl IndexError
                else Inr (if length wss_mid div P = 0 then None
                          else Some (overlay_windows wss_mid P)))"
    if s: "wss_mid_series results = Inr wss_mid"
  proof (cases results)
    case Nil
    then show ?thesis by (simp add: plot_wss_heartbeats_def)
  next
    case (Cons r rs)
    with s have h: "map_of r ''wss_mid_mean'' \<noteq> None" using wss_mid_series_head by blast
    show ?thesis
      using overlay_curves[OF assms, of wss_mid] nz d[of "length wss_mid"] h s Cons
      by (simp add: plot_wss_heartbeats_def py_floordiv_def ebind_def Let_def del: wss_mid_series.simps)
  qed
  from a b overlay_windows_props[OF assms, of xs] show ?thesis by blast
qed

theorem heartbeat_overlay_windows_witness:
  "(0::nat) < 2
   \<and> plot_wss_heartbeat_overlay [Fin 1, Fin 2, Fin 3, Fin 4, Fin 5] 2
       = Inr (Some [([0, 1], [Fin 10000, Fin 20000]), ([0, 1], [Fin 30000, Fin 40000])])
   \<and> plot_wss_heartbeats
        [[(''wss_mid_mean'', RNum (Fin 1))], [(''wss_mid_mean'', RNum (Fin 2))],
         [(''wss_mid_mean'', RNum (Fin 3))]] 2
       = Inr (Some [([0, 1], [Fin 1, Fin 2])])"
proof -
  have p: "(0::nat) < 2" by simp
  have s: "wss_mid_series [[(''wss_mid_mean'', RNum (Fin 1))], [(''wss_mid_mean'', RNum (Fin 2))],
         [(''wss_mid_mean'', RNum (Fin 3))]] = Inr [Fin 1, Fin 2, Fin 3]"
    by (simp add: ebind_def)
  have u: "[0..<2] = [0, 1]" "[0..<1] = [0]" by (simp_all add: upt_rec[of 0] upt_rec[of 1] eval_nat_numeral)
  have w1: "overlay_windows (map scale_wss [Fin 1, Fin 2, Fin 3, Fin 4, Fin 5]) 2
       = [([0, 1], [Fin 10000, Fin 20000]), ([0, 1], [Fin 30000, Fin 40000])]"
    by (simp add: overlay_windows_def u f_scales_wss_def)
  have w2: "overlay_windows [Fin 1, Fin 2, Fin 3] 2 = [([0, 1], [Fin 1, Fin 2])]"
    by (simp add: overlay_windows_def u)
  let ?rs = "[[(''wss_mid_mean'', RNum (Fin 1))], [(''wss_mid_mean'', RNum (Fin 2))],
         [(''wss_mid_mean'', RNum (Fin 3))]]"
  note T = heartbeat_overlay_windows[OF p, of "[Fin 1, Fin 2, Fin 3, Fin 4, Fin 5]" ?rs "[Fin 1, Fin 2, Fin 3]" "[]"]
  have a: "plot_wss_heartbeat_overlay [Fin 1, Fin 2, Fin 3, Fin 4, Fin 5] 2
       = Inr (Some [([0, 1], [Fin 10000, Fin 20000]), ([0, 1], [Fin 30000, Fin 40000])])"
    using T[THEN conjunct1] unfolding w1 by simp
  have b: "plot_wss_heartbeats ?rs 2 = Inr (Some [([0, 1], [Fin 1, Fin 2])])"
    using T[THEN conjunct2, THEN conjunct1, rule_format, OF s] unfolding w2 by simp
  from p a b show ?thesis by blast
qed

section \<open>Properties of pulsatile\_flow/post\_fluid.py\<close>

lemma np_min_Min: "np_min xs = Inr m \<Longrightarrow> m = Min (set xs)"
  by (cases xs) (auto simp: Min.set_eq_fold[symmetric])

lemma np_max_Max: "np_max xs = Inr m \<Longrightarrow> m = Max (set xs)"
  by (cases xs) (auto simp: Max.set_eq_fold[symmetric])

lemma mask_select_map:
  "mask_select xs (map B ys) = Inr r \<Longrightarrow>
     r = map fst (filter (\<lambda>(w, z). B z) (zip xs ys))"
proof -
  assume a: "mask_select xs (map B ys) = Inr r"
  have "zip xs (map B ys) = map (\<lambda>(w, z). (w, B z)) (zip xs ys)" by (simp add: zip_map2)
  then have "map fst (filter snd (zip xs (map B ys))) = map fst (filter (\<lambda>(w, z). B z) (zip xs ys))"
    by (simp add: filter_map comp_def case_prod_unfold)
  with a show ?thesis by (auto simp: mask_select_def split: if_splits)
qed

lemma mask_select_self:
  "mask_select xs (map T xs) = Inr (filter T xs)"
proof -
  have "map fst (filter snd (zip xs (map T xs))) = filter T xs"
    by (induction xs) auto
  then show ?thesis by (simp add: mask_select_def)
qed

lemma wss_mid_mean_selected:
  assumes "wss_mid_mean pts wss_mag = Inr m" "mid_band_wall_values pts wss_mag \<noteq> []"
  shows "m = Fin (sum_list (mid_band_wall_values pts wss_mag) / real (length (mid_band_wall_values pts wss_mag)))"
proof -
  let ?zs = "map (\<lambda>(x, y, z). z) pts"
  from assms(1) obtain z_min z_max where mn: "np_min ?zs = Inr z_min" and mx: "np_max ?zs = Inr z_max"
    by (auto simp: wss_mid_mean_def ebind_def Let_def split: sum.splits)
  let ?B = "\<lambda>z. \<bar>z - (z_min + z_max) / 2\<bar> < (z_max - z_min) * 0.05"
  let ?T = "\<lambda>w::real. w > 1 / 10 ^ 10"
  from assms(1) mn mx obtain wss_mid where ms: "mask_select wss_mag (map ?B ?zs) = Inr wss_mid"
    by (auto simp: wss_mid_mean_def ebind_def Let_def split: sum.splits)
  from mask_select_map[OF ms] have wm: "wss_mid = map fst (filter (\<lambda>(w, z). ?B z) (zip wss_mag ?zs))" .
  have sel: "filter ?T wss_mid = mid_band_wall_values pts wss_mag"
    unfolding wm mid_band_wall_values_def Let_def np_min_Min[OF mn, symmetric] np_max_Max[OF mx, symmetric]
    by (simp add: filter_map comp_def case_prod_unfold conj_commute)
  with assms(2) have "filter ?T wss_mid \<noteq> []" by simp
  then have ex: "list_ex (\<lambda>b. b) (map ?T wss_mid)"
    unfolding list_ex_iff filter_empty_conv by auto
  from assms(1) mn mx ms ex have "m = np_mean (filter ?T wss_mid)"
    by (simp add: wss_mid_mean_def ebind_def Let_def mask_select_self)
  with sel assms(2) show ?thesis by (simp add: np_mean_def)
qed

lemma traction_block_keeps:
  "traction_block res r = Inr r' \<Longrightarrow> map_of r' ''wss_mid_mean'' = map_of r ''wss_mid_mean''"
  by (auto simp: traction_block_def ebind_def Let_def update_conv' split: if_splits sum.splits)

lemma wss_block_sets:
  assumes "map_of (point_data res) ''WSS'' = Some wss" "wss_block res r = Inr r'"
  shows "\<exists>m. wss_mid_mean (points res) (magnitude wss) = Inr m \<and> map_of r' ''wss_mid_mean'' = Some (RNum m)"
  using assms
  by (auto simp: wss_block_def HasArray_def GetArray_def ebind_def Let_def update_conv' split: sum.splits)

text \<open>
  Claim C9. For a snapshot with a WSS array on which \<open>extract_results_fluid\<close> returns:
  whenever some point of the 5 percent axial band around the middle cross-section has a WSS
  magnitude above the threshold \<open>1e-10\<close>, the reported \<open>wss_mid_mean\<close> is the mean of
  the WSS magnitudes of exactly the above-threshold points of the band; the other points of
  the band are left out.
\<close>

theorem wss_mid_mean_over_wall_points:
  assumes "map_of (point_data res) ''WSS'' = Some wss"
      and "extract_results_fluid res = Inr results"
      and "mid_band_wall_values (points res) (magnitude wss) \<noteq> []"
  shows "map_of results ''wss_mid_mean'' =
           Some (RNum (Fin (sum_list (mid_band_wall_values (points res) (magnitude wss))
                            / real (length (mid_band_wall_values (points res) (magnitude wss))))))"
proof -
  from assms(2) obtain r2 r3 where w: "wss_block res r2 = Inr r3" and t: "traction_block res r3 = Inr results"
    by (auto simp: extract_results_fluid_def ebind_def split: sum.splits)
  from wss_block_sets[OF assms(1) w] obtain m where
    m: "wss_mid_mean (points res) (magnitude wss) = Inr m" "map_of r3 ''wss_mid_mean'' = Some (RNum m)" by blast
  from wss_mid_mean_selected[OF m(1) assms(3)] m(2) traction_block_keeps[OF t]
  show ?thesis by simp
qed


lemma row_norm_axis: "row_norm [x, 0, 0] = \<bar>x\<bar>"
  by (simp add: row_norm_def)

lemma extract_results_fluid_example:
  "extract_results_fluid
     \<lparr>points = [(0, 0, 0), (1, 0, 5), (0, 0, 5), (0, 1, 5), (0, 0, 10)],
      point_data = [(''WSS'', Arr2 [[9, 0, 0], [2, 0, 0], [0, 0, 0], [4, 0, 0], [7, 0, 0]])]\<rparr>
   = Inr [(''wss'', RArr (Arr2 [[9, 0, 0], [2, 0, 0], [0, 0, 0], [4, 0, 0], [7, 0, 0]])),
          (''wss_mag'', RArr (Arr1 [9, 2, 0, 4, 7])),
          (''wss_mean'', RNum (Fin (22 / 5))),
          (''wss_max'', RNum (Fin 9)),
          (''wss_mid_mean'', RNum (Fin 3))]"
  by (simp add: extract_results_fluid_def pressure_block_def velocity_block_def wss_block_def
        traction_block_def HasArray_def GetArray_def ebind_def Let_def row_norm_axis np_mean_def
        wss_mid_mean_def mask_select_def)

theorem wss_mid_mean_over_wall_points_witness:
  "mid_band_wall_values [(0, 0, 0), (1, 0, 5), (0, 0, 5), (0, 1, 5), (0, 0, 10)] [9, 2, 0, 4, 7] = [2, 4]
   \<and> map_of [(''wss'', RArr (Arr2 [[9, 0, 0], [2, 0, 0], [0, 0, 0], [4, 0, 0], [7, 0, 0]])),
          (''wss_mag'', RArr (Arr1 [9, 2, 0, 4, 7])),
          (''wss_mean'', RNum (Fin (22 / 5))),
          (''wss_max'', RNum (Fin 9)),
          (''wss_mid_mean'', RNum (Fin 3))] ''wss_mid_mean'' = Some (RNum (Fin ((2 + 4) / 2)))"
proof -
  let ?res = "\<lparr>points = [(0, 0, 0), (1, 0, 5), (0, 0, 5), (0, 1, 5), (0, 0, 10)],
      point_data = [(''WSS'', Arr2 [[9, 0, 0], [2, 0, 0], [0, 0, 0], [4, 0, 0], [7, 0, 0::real]])]\<rparr>"
  have w: "map_of (point_data ?res) ''WSS'' = Some (Arr2 [[9, 0, 0], [2, 0, 0], [0, 0, 0], [4, 0, 0], [7, 0, 0]])"
    by simp
  have m: "magnitude (Arr2 [[9, 0, 0], [2, 0, 0], [0, 0, 0], [4, 0, 0], [7, 0, 0]]) = [9, 2, 0, 4, 7]"
    by (simp add: row_norm_axis)
  have sel: "mid_band_wall_values [(0, 0, 0), (1, 0, 5), (0, 0, 5), (0, 1, 5), (0, 0, 10)] [9, 2, 0, 4, 7] = [2, 4]"
    by (simp add: mid_band_wall_values_def Let_def)
  have ne: "mid_band_wall_values (points ?res)
              (magnitude (Arr2 [[9, 0, 0], [2, 0, 0], [0, 0, 0], [4, 0, 0], [7, 0, 0]])) \<noteq> []"
    unfolding m using sel by simp
  from wss_mid_mean_over_wall_points[OF w extract_results_fluid_example ne] sel
  show ?thesis unfolding m by simp
qed

section \<open>Properties of get\_ids\<close>

lemma np_unique_length: "(length (np_unique crd) = length crd) = distinct crd"
  by (simp add: np_unique_def)

lemma argsort_set: "set (argsort crd) = {0..<length crd}"
  by (simp add: argsort_def)

lemma argsort_distinct: "distinct (argsort crd)"
  by (simp add: argsort_def)

lemma argsort_sorted: "sorted (map (\<lambda>k. crd ! k) (argsort crd))"
  by (simp add: argsort_def)

lemma where_ids_distinct: "distinct (where_ids pts_cra loc pt)"
  by (simp add: where_ids_def)

lemma where_ids_set:
  "set (where_ids pts_cra loc pt) = {j. j < length pts_cra \<and> chk loc pt (pts_cra ! j)}"
  by (auto simp: where_ids_def)

lemma sorted_found:
  fixes f :: "nat \<Rightarrow> real" and found :: "nat list"
  assumes "distinct found"
  defines "crd \<equiv> map f found"
  defines "ids2 \<equiv> map (\<lambda>k. found ! k) (argsort crd)"
  shows "set ids2 = set found" and "distinct ids2"
    and "map (\<lambda>k. crd ! k) (argsort crd) = map f ids2"
    and "distinct crd \<Longrightarrow> sorted_wrt (<) (map f ids2)"
proof -
  have len: "length crd = length found" by (simp add: crd_def)
  have "(\<lambda>k. found ! k) ` {0..<length found} = set found"
    using nth_image[of "length found" found] by simp
  then show s: "set ids2 = set found"
    unfolding ids2_def by (simp add: argsort_set len)
  have inj: "inj_on (\<lambda>k. found ! k) {0..<length found}"
    using assms(1) by (auto simp: inj_on_def nth_eq_iff_index_eq)
  show d: "distinct ids2"
    unfolding ids2_def by (simp add: distinct_map argsort_distinct argsort_set len inj)
  show e: "map (\<lambda>k. crd ! k) (argsort crd) = map f ids2"
    unfolding ids2_def by (simp add: argsort_set len crd_def)
  assume dc: "distinct crd"
  have "inj_on (\<lambda>k. crd ! k) {0..<length crd}"
    using dc by (auto simp: inj_on_def nth_eq_iff_index_eq)
  then have "distinct (map (\<lambda>k. crd ! k) (argsort crd))"
    by (simp add: distinct_map argsort_distinct argsort_set)
  with argsort_sorted[of crd] show "sorted_wrt (<) (map f ids2)"
    unfolding e[symmetric] by (simp add: strict_sorted_iff)
qed

lemma locate_ok:
  assumes "locate pts_cra loc target (ids, coords) = Inr (ids', coords')"
      and "map_of coords loc = None"
  shows "entry_ok pts_cra loc target (map_of ids' loc) (map_of coords' loc)"
    and "\<forall>k. k \<noteq> loc \<longrightarrow> map_of ids' k = map_of ids k \<and> map_of coords' k = map_of coords k"
proof -
  let ?found = "where_ids pts_cra loc target"
  let ?crd = "map (\<lambda>j. nth3 (pts_cra ! j) (wild_index loc)) ?found"
  let ?ids2 = "map (\<lambda>k. ?found ! k) (argsort ?crd)"
  note S = sorted_found[OF where_ids_distinct[of pts_cra loc target],
      where f = "\<lambda>j. nth3 (pts_cra ! j) (wild_index loc)"]
  show "entry_ok pts_cra loc target (map_of ids' loc) (map_of coords' loc)"
  proof (cases "?found \<noteq> [] \<and> has_wild loc")
    case True
    with assms(1) have dc: "distinct ?crd"
      and i: "ids' = AList.update loc ?ids2 (AList.update loc ?found ids)"
      and c: "coords' = AList.update loc (map (\<lambda>k. ?crd ! k) (argsort ?crd)) coords"
      by (auto simp: locate_def Let_def np_unique_length split: if_splits)
    have ne: "?ids2 \<noteq> []" using True S(1) by (metis set_empty)
    show ?thesis
      unfolding entry_ok_def i c update_conv' axis_coords_def
      using S(1,2,3) S(4)[OF dc] ne True by simp
  next
    case False
    with assms(1) have i: "ids' = AList.update loc ?found ids" and c: "coords' = coords"
      by (auto simp: locate_def Let_def split: if_splits)
    show ?thesis
      unfolding entry_ok_def i c update_conv'
      using False assms(2) where_ids_distinct by auto
  qed
  show "\<forall>k. k \<noteq> loc \<longrightarrow> map_of ids' k = map_of ids k \<and> map_of coords' k = map_of coords k"
    using assms(1) by (auto simp: locate_def Let_def update_conv' split: if_splits)
qed

lemma locate_doms:
  assumes "locate pts_cra loc target (ids, coords) = Inr (ids', coords')"
  shows "fst ` set ids' = insert loc (fst ` set ids)"
    and "fst ` set coords' \<subseteq> insert loc (fst ` set coords)"
proof -
  let ?found = "where_ids pts_cra loc target"
  from assms obtain v where "ids' = AList.update loc v (AList.update loc ?found ids) \<or> ids' = AList.update loc ?found ids"
    by (auto simp: locate_def Let_def split: if_splits)
  then show "fst ` set ids' = insert loc (fst ` set ids)"
    by (elim disjE) (simp_all add: dom_update)
  from assms obtain w where "coords' = AList.update loc w coords \<or> coords' = coords"
    by (auto simp: locate_def Let_def split: if_splits)
  then show "fst ` set coords' \<subseteq> insert loc (fst ` set coords)"
    by (elim disjE) (simp_all add: dom_update subset_insertI)
qed

lemma get_ids_loop_inv:
  assumes "distinct (map fst (D @ rest))" "inv_ids pts_cra D s"
      and "get_ids_loop rest pts_cra s = Inr s'"
  shows "inv_ids pts_cra (D @ rest) s'"
  using assms
proof (induction rest arbitrary: D s)
  case Nil
  then show ?case by simp
next
  case (Cons a rest)
  obtain loc target where a: "a = (loc, target)" by (cases a)
  obtain ids coords where s: "s = (ids, coords)" by (cases s)
  from Cons.prems(3) a s obtain ids1 coords1 where
    l: "locate pts_cra loc target (ids, coords) = Inr (ids1, coords1)"
    and r: "get_ids_loop rest pts_cra (ids1, coords1) = Inr s'"
    by (auto simp: ebind_def split: sum.splits)
  from Cons.prems(1) a have fresh: "loc \<notin> fst ` set D" and d: "distinct (map fst D)" by auto
  from Cons.prems(2) s fresh have none: "map_of coords loc = None"
    by (auto simp: inv_ids_def map_of_eq_None_iff)
  note L = locate_ok[OF l none] and Dm = locate_doms[OF l]
  have Da: "fst ` set (D @ [a]) = insert loc (fst ` set D)" using a by simp
  from Cons.prems(2) s have I1: "fst ` set ids = fst ` set D" and I2: "fst ` set coords \<subseteq> fst ` set D"
    by (simp_all add: inv_ids_def)
  have "inv_ids pts_cra (D @ [a]) (ids1, coords1)"
    unfolding inv_ids_def
  proof (simp only: prod.case, intro conjI ballI)
    show "fst ` set ids1 = fst ` set (D @ [a])"
      unfolding Da Dm(1) I1 ..
    show "fst ` set coords1 \<subseteq> fst ` set (D @ [a])"
      unfolding Da using Dm(2) I2 by blast
    fix x assume x: "x \<in> set (D @ [a])"
    obtain k t where kt: "x = (k, t)" by (cases x)
    show "case x of (loc, target) \<Rightarrow> entry_ok pts_cra loc target (map_of ids1 loc) (map_of coords1 loc)"
    proof (cases "k = loc")
      case True
      with x kt a fresh have "t = target" by (auto simp: image_iff)
      with True kt L(1) show ?thesis by simp
    next
      case False
      with x kt a have "(k, t) \<in> set D" by auto
      with Cons.prems(2) s have "entry_ok pts_cra k t (map_of ids k) (map_of coords k)"
        by (auto simp: inv_ids_def)
      moreover from L(2) False have "map_of ids1 k = map_of ids k" "map_of coords1 k = map_of coords k"
        by blast+
      ultimately show ?thesis using kt by simp
    qed
  qed
  moreover have "distinct (map fst ((D @ [a]) @ rest))" using Cons.prems(1) by simp
  ultimately have "inv_ids pts_cra ((D @ [a]) @ rest) s'" using r Cons.IH by blast
  then show ?case by simp
qed


lemma fold_preserves:
  assumes "\<And>x a. P a \<Longrightarrow> P (f x a)" "P a"
  shows "P (fold f xs a)"
  using assms(2) by (induction xs arbitrary: a) (auto intro: assms(1))

lemma locations_distinct: "distinct (map fst (locations p_cir p_rad p_axi))"
  unfolding locations_def
  by (intro fold_preserves[where P = "\<lambda>al. distinct (map fst al)"])
     (auto simp: distinct_update split: prod.splits intro!: fold_preserves[where P = "\<lambda>al. distinct (map fst al)"])

lemma locations_of_distinct: "distinct (map fst (locations_of pts_cra domain))"
  by (auto simp: locations_of_def locations_distinct split: sum.splits)

lemma dup_coords:
  "(\<not> distinct (axis_coords pts_cra loc (where_ids pts_cra loc target))) =
   (\<exists>i j. i < length pts_cra \<and> j < length pts_cra \<and> i \<noteq> j \<and>
      chk loc target (pts_cra ! i) \<and> chk loc target (pts_cra ! j) \<and>
      nth3 (pts_cra ! i) (wild_index loc) = nth3 (pts_cra ! j) (wild_index loc))"
  unfolding axis_coords_def distinct_map
  by (auto simp: where_ids_distinct where_ids_set inj_on_def)

lemma locate_error:
  "(locate pts_cra loc target s = Inl e) =
   (e = AssertionError \<and> has_wild loc \<and>
    \<not> distinct (axis_coords pts_cra loc (where_ids pts_cra loc target)))"
  by (cases s) (auto simp: locate_def Let_def np_unique_length axis_coords_def)

lemma get_ids_loop_error:
  "(get_ids_loop L pts_cra s = Inl e) =
   (e = AssertionError \<and>
    (\<exists>(loc, target) \<in> set L. has_wild loc \<and>
        \<not> distinct (axis_coords pts_cra loc (where_ids pts_cra loc target))))"
proof (induction L arbitrary: s)
  case Nil
  then show ?case by simp
next
  case (Cons a L)
  obtain loc target where a: "a = (loc, target)" by (cases a)
  show ?case
  proof (cases "locate pts_cra loc target s")
    case (Inl e')
    then show ?thesis using a locate_error[of pts_cra loc target s e']
      by (auto simp: ebind_def)
  next
    case (Inr s')
    then have "\<not> (has_wild loc \<and> \<not> distinct (axis_coords pts_cra loc (where_ids pts_cra loc target)))"
      using locate_error[of pts_cra loc target s AssertionError] by auto
    then show ?thesis using a Inr Cons.IH[of s'] by (auto simp: ebind_def)
  qed
qed

lemma get_ids_cra_Inr:
  assumes "get_ids_cra pts_cra domain = Inr s"
  shows "get_ids_loop (locations_of pts_cra domain) pts_cra ([], []) = Inr s"
  using assms
  by (auto simp: get_ids_cra_def locations_of_def ebind_def split: sum.splits)

lemma get_ids_cra_inv:
  assumes "get_ids_cra pts_cra domain = Inr s"
  shows "inv_ids pts_cra (locations_of pts_cra domain) s"
proof -
  have "inv_ids pts_cra [] ([], [])" by (simp add: inv_ids_def)
  from get_ids_loop_inv[of "[]", simplified, OF locations_of_distinct this get_ids_cra_Inr[OF assms]]
  show ?thesis .
qed

lemma get_ids_cra_entry:
  assumes "get_ids_cra pts_cra domain = Inr (ids, coords)"
      and "map_of (locations_of pts_cra domain) loc = Some target"
  shows "entry_ok pts_cra loc target (map_of ids loc) (map_of coords loc)"
  using get_ids_cra_inv[OF assms(1)] map_of_SomeD[OF assms(2)]
  by (auto simp: inv_ids_def)

lemma get_ids_cra_keys:
  assumes "get_ids_cra pts_cra domain = Inr (ids, coords)"
  shows "fst ` set ids = fst ` set (locations_of pts_cra domain)"
    and "fst ` set coords \<subseteq> fst ` set (locations_of pts_cra domain)"
  using get_ids_cra_inv[OF assms(1)] by (auto simp: inv_ids_def)

lemma get_ids_cra_assertion:
  "(get_ids_cra pts_cra domain = Inl AssertionError) =
   (\<exists>loc target. map_of (locations_of pts_cra domain) loc = Some target \<and> has_wild loc \<and>
        \<not> distinct (axis_coords pts_cra loc (where_ids pts_cra loc target)))"
proof (cases "ebind (np_max (map (\<lambda>c. nth3 c 1) pts_cra)) (\<lambda>ro.
           ebind (np_max (map (\<lambda>c. nth3 c 2) pts_cra)) (\<lambda>h.
           domain_points domain ro h))")
  case (Inl e)
  then have "locations_of pts_cra domain = []" by (simp add: locations_of_def)
  moreover from Inl have "get_ids_cra pts_cra domain \<noteq> Inl AssertionError"
    by (cases pts_cra) (auto simp: get_ids_cra_def ebind_def domain_points_def split: sum.splits if_splits)
  ultimately show ?thesis by simp
next
  case (Inr p)
  then have g: "get_ids_cra pts_cra domain = get_ids_loop (locations_of pts_cra domain) pts_cra ([], [])"
    by (cases pts_cra) (auto simp: get_ids_cra_def locations_of_def ebind_def split: sum.splits prod.splits)
  have "(\<exists>(loc, target) \<in> set (locations_of pts_cra domain). Q loc target) =
        (\<exists>loc target. map_of (locations_of pts_cra domain) loc = Some target \<and> Q loc target)" for Q
    unfolding map_of_eq_Some_iff[OF locations_of_distinct] by fast
  then show ?thesis unfolding g get_ids_loop_error by simp
qed

lemma chk_iff:
  "chk loc target c =
   (\<forall>i<3. nth3 loc i \<noteq> wild \<longrightarrow>
      \<bar>nth3 c i - nth3 target i\<bar> \<le> 1 / 10 ^ 8 + 1 / 10 ^ 5 * \<bar>nth3 target i\<bar>)"
proof -
  have "(\<forall>i<3. P i) = (P 0 \<and> P 1 \<and> P (2::nat))" for P
    by (auto simp: less_Suc_eq numeral_3_eq_3 numeral_2_eq_2)
  then show ?thesis by (simp add: chk_def isclose_def)
qed

subsection \<open>A small centerline\<close>

lemma xyz2cra_axis: "xyz2cra (0, 0, z) = (0, 0, z)"
  by (simp add: xyz2cra_def arctan2_def py_mod_def)

lemma upt3: "[0..<3] = [0, 1, 2]"
  by (simp add: upt_rec[of 0] upt_rec[of 1] upt_rec[of 2] eval_nat_numeral)

lemma locations_fluid:
  "locations [(LInt 0, 0)] [(LStr ''center'', 0)] [(LStr ''start'', 0), (LStr ''mid'', h / 2), (LStr ''end'', h)]
   = [((LInt 0, LStr ''center'', LStr ''start''), (0, 0, 0)),
      ((wild, LStr ''center'', LStr ''start''), (0, 0, 0)),
      ((LInt 0, wild, LStr ''start''), (0, 0, 0)),
      ((LInt 0, LStr ''center'', wild), (0, 0, h)),
      ((LInt 0, LStr ''center'', LStr ''mid''), (0, 0, h / 2)),
      ((wild, LStr ''center'', LStr ''mid''), (0, 0, h / 2)),
      ((LInt 0, wild, LStr ''mid''), (0, 0, h / 2)),
      ((LInt 0, LStr ''center'', LStr ''end''), (0, 0, h)),
      ((wild, LStr ''center'', LStr ''end''), (0, 0, h)),
      ((LInt 0, wild, LStr ''end''), (0, 0, h))]"
  by (simp add: locations_def identifiers_def wild_def)

lemma get_ids_cra_example:
  "get_ids_cra [(0, 0, 0), (0, 0, 500001 / 1000000), (0, 0, 1)] ''fluid''
   = Inr ([((LInt 0, LStr ''center'', LStr ''start''), [0]),
           ((wild, LStr ''center'', LStr ''start''), [0]),
           ((LInt 0, wild, LStr ''start''), [0]),
           ((LInt 0, LStr ''center'', wild), [0, 1, 2]),
           ((LInt 0, LStr ''center'', LStr ''mid''), [1]),
           ((wild, LStr ''center'', LStr ''mid''), [1]),
           ((LInt 0, wild, LStr ''mid''), [1]),
           ((LInt 0, LStr ''center'', LStr ''end''), [2]),
           ((wild, LStr ''center'', LStr ''end''), [2]),
           ((LInt 0, wild, LStr ''end''), [2])],
          [((wild, LStr ''center'', LStr ''start''), [0]),
           ((LInt 0, wild, LStr ''start''), [0]),
           ((LInt 0, LStr ''center'', wild), [0, 500001 / 1000000, 1]),
           ((wild, LStr ''center'', LStr ''mid''), [0]),
           ((LInt 0, wild, LStr ''mid''), [0]),
           ((wild, LStr ''center'', LStr ''end''), [0]),
           ((LInt 0, wild, LStr ''end''), [0])])"
  unfolding get_ids_cra_def
  by (simp add: ebind_def domain_points_def locations_fluid)
     (simp add: wild_def locate_def where_ids_def chk_def isclose_def has_wild_def wild_index_def
        argsort_def np_unique_def Let_def upt3 ebind_def)


lemma locations_of_fluid:
  "locations_of ((a, r, z) # cs) ''fluid'' =
     (case np_max (map (\<lambda>c. nth3 c 2) ((a, r, z) # cs)) of
        Inr h \<Rightarrow>
          [((LInt 0, LStr ''center'', LStr ''start''), (0, 0, 0)),
           ((wild, LStr ''center'', LStr ''start''), (0, 0, 0)),
           ((LInt 0, wild, LStr ''start''), (0, 0, 0)),
           ((LInt 0, LStr ''center'', wild), (0, 0, h)),
           ((LInt 0, LStr ''center'', LStr ''mid''), (0, 0, h / 2)),
           ((wild, LStr ''center'', LStr ''mid''), (0, 0, h / 2)),
           ((LInt 0, wild, LStr ''mid''), (0, 0, h / 2)),
           ((LInt 0, LStr ''center'', LStr ''end''), (0, 0, h)),
           ((wild, LStr ''center'', LStr ''end''), (0, 0, h)),
           ((LInt 0, wild, LStr ''end''), (0, 0, h))]
      | Inl e \<Rightarrow> [])"
  by (simp add: locations_of_def ebind_def domain_points_def locations_fluid)

lemma get_ids_example:
  "get_ids [(0, 0, 0), (0, 0, 500001 / 1000000), (0, 0, 1)] ''fluid''
   = Inr ([((LInt 0, LStr ''center'', LStr ''start''), [0]),
           ((wild, LStr ''center'', LStr ''start''), [0]),
           ((LInt 0, wild, LStr ''start''), [0]),
           ((LInt 0, LStr ''center'', wild), [0, 1, 2]),
           ((LInt 0, LStr ''center'', LStr ''mid''), [1]),
           ((wild, LStr ''center'', LStr ''mid''), [1]),
           ((LInt 0, wild, LStr ''mid''), [1]),
           ((LInt 0, LStr ''center'', LStr ''end''), [2]),
           ((wild, LStr ''center'', LStr ''end''), [2]),
           ((LInt 0, wild, LStr ''end''), [2])],
          [((wild, LStr ''center'', LStr ''start''), [0]),
           ((LInt 0, wild, LStr ''start''), [0]),
           ((LInt 0, LStr ''center'', wild), [0, 500001 / 1000000, 1]),
           ((wild, LStr ''center'', LStr ''mid''), [0]),
           ((LInt 0, wild, LStr ''mid''), [0]),
           ((wild, LStr ''center'', LStr ''end''), [0]),
           ((LInt 0, wild, LStr ''end''), [0])])"
  unfolding get_ids_def by (simp only: list.map xyz2cra_axis get_ids_cra_example)

lemma mid_target_example:
  "map_of (locations_of (map xyz2cra [(0, 0, 0), (0, 0, 500001 / 1000000), (0, 0, 1)]) ''fluid'')
     (LInt 0, LStr ''center'', LStr ''mid'') = Some (0, 0, 1 / 2)"
  by (simp add: xyz2cra_axis locations_of_fluid wild_def)

lemma dup_target_example:
  "map_of (locations_of (map xyz2cra [(0, 0, 0), (0, 0, 1), (0, 0, 1)]) ''fluid'')
     (LInt 0, LStr ''center'', wild) = Some (0, 0, 1)"
  by (simp add: xyz2cra_axis locations_of_fluid wild_def)

text \<open>
  Claim C5, as amended. For every point set on which \<open>get_ids\<close> returns and every key it
  registers, the point indices stored for the key are exactly the indices of the points
  whose cylindrical coordinates are close to the position of the key on every axis of the
  key that is not the wildcard, where close is \<open>np.isclose\<close> with numpy's default
  tolerances: \<open>|c - v| <= 1e-8 + 1e-5 * |v|\<close> for the coordinate \<open>c\<close> and the value \<open>v\<close>
  of the key.
\<close>

theorem get_ids_selects_within_isclose:
  assumes "get_ids pts_xyz domain = Inr (ids, coords)"
      and "map_of (locations_of (map xyz2cra pts_xyz) domain) loc = Some target"
  shows "\<exists>pt. map_of ids loc = Some pt \<and> distinct pt \<and>
           set pt = {j. j < length pts_xyz \<and>
                        (\<forall>i<3. nth3 loc i \<noteq> wild \<longrightarrow>
                           \<bar>nth3 (map xyz2cra pts_xyz ! j) i - nth3 target i\<bar>
                             \<le> 1 / 10 ^ 8 + 1 / 10 ^ 5 * \<bar>nth3 target i\<bar>)}"
proof -
  from assms(1) have g: "get_ids_cra (map xyz2cra pts_xyz) domain = Inr (ids, coords)"
    by (simp add: get_ids_def)
  from get_ids_cra_entry[OF g assms(2)] obtain pt where
    "map_of ids loc = Some pt" "set pt = set (where_ids (map xyz2cra pts_xyz) loc target)" "distinct pt"
    by (auto simp: entry_ok_def)
  then show ?thesis by (auto simp: where_ids_set chk_iff)
qed

theorem get_ids_selects_within_isclose_witness:
  "{j. j < length [(0, 0, 0), (0, 0, 500001 / 1000000), (0, 0, 1 :: real)] \<and>
       (\<forall>i<3. nth3 (LInt 0, LStr ''center'', LStr ''mid'') i \<noteq> wild \<longrightarrow>
          \<bar>nth3 (map xyz2cra [(0, 0, 0), (0, 0, 500001 / 1000000), (0, 0, 1)] ! j) i - nth3 (0, 0, 1 / 2) i\<bar>
            \<le> 1 / 10 ^ 8 + 1 / 10 ^ 5 * \<bar>nth3 (0, 0, 1 / 2 :: real) i\<bar>)} = {1}"
  using get_ids_selects_within_isclose[OF get_ids_example mid_target_example]
  by (simp add: wild_def)

text \<open>
  The claim as stated (a tolerance of about \<open>1e-9\<close>) fails: on a centerline of height 1
  the point at height 0.500001 is selected for the key \<open>(0, center, mid)\<close> of position
  0.5, although it is \<open>1e-6\<close> away from it.
\<close>

theorem get_ids_tolerance_counterexample:
  "get_ids [(0, 0, 0), (0, 0, 500001 / 1000000), (0, 0, 1)] ''fluid''
   = Inr ([((LInt 0, LStr ''center'', LStr ''start''), [0]),
           ((wild, LStr ''center'', LStr ''start''), [0]),
           ((LInt 0, wild, LStr ''start''), [0]),
           ((LInt 0, LStr ''center'', wild), [0, 1, 2]),
           ((LInt 0, LStr ''center'', LStr ''mid''), [1]),
           ((wild, LStr ''center'', LStr ''mid''), [1]),
           ((LInt 0, wild, LStr ''mid''), [1]),
           ((LInt 0, LStr ''center'', LStr ''end''), [2]),
           ((wild, LStr ''center'', LStr ''end''), [2]),
           ((LInt 0, wild, LStr ''end''), [2])],
          [((wild, LStr ''center'', LStr ''start''), [0]),
           ((LInt 0, wild, LStr ''start''), [0]),
           ((LInt 0, LStr ''center'', wild), [0, 500001 / 1000000, 1]),
           ((wild, LStr ''center'', LStr ''mid''), [0]),
           ((LInt 0, wild, LStr ''mid''), [0]),
           ((wild, LStr ''center'', LStr ''end''), [0]),
           ((LInt 0, wild, LStr ''end''), [0])])
   \<and> map_of (locations_of (map xyz2cra [(0, 0, 0), (0, 0, 500001 / 1000000), (0, 0, 1)]) ''fluid'')
         (LInt 0, LStr ''center'', LStr ''mid'') = Some (0, 0, 1 / 2)
   \<and> xyz2cra (0, 0, 500001 / 1000000) = (0, 0, 500001 / 1000000)
   \<and> \<not> \<bar>500001 / 1000000 - 1 / 2\<bar> \<le> (1 / 10 ^ 9 :: real)
   \<and> \<not> \<bar>500001 / 1000000 - 1 / 2\<bar> \<le> (1 / 10 ^ 9 * \<bar>500001 / 1000000\<bar> :: real)"
  using get_ids_example mid_target_example xyz2cra_axis[of "500001 / 1000000"]
  by simp

text \<open>
  Claim C2. Whenever \<open>get_ids\<close> returns, every coordinate sequence it stores is strictly
  increasing (so without duplicates), and every registered key with a wildcard axis that
  matches a point has its matched indices stored in the order of their coordinates along
  that axis, with these coordinates stored beside them. \<open>get_ids\<close> raises the assertion
  error exactly when two different points matched by a registered wildcard key share the
  coordinate along the wildcard axis.
\<close>

theorem get_ids_wildcard_sorted_or_error:
  "(\<forall>ids coords. get_ids pts_xyz domain = Inr (ids, coords) \<longrightarrow>
      (\<forall>loc crd. map_of coords loc = Some crd \<longrightarrow> sorted_wrt (<) crd \<and> distinct crd) \<and>
      (\<forall>loc target. map_of (locations_of (map xyz2cra pts_xyz) domain) loc = Some target \<longrightarrow>
          has_wild loc \<longrightarrow> where_ids (map xyz2cra pts_xyz) loc target \<noteq> [] \<longrightarrow>
          (\<exists>pt. map_of ids loc = Some pt \<and>
                set pt = set (where_ids (map xyz2cra pts_xyz) loc target) \<and>
                map_of coords loc = Some (axis_coords (map xyz2cra pts_xyz) loc pt) \<and>
                sorted_wrt (<) (axis_coords (map xyz2cra pts_xyz) loc pt))))
   \<and> ((get_ids pts_xyz domain = Inl AssertionError) =
        (\<exists>loc target i j.
            map_of (locations_of (map xyz2cra pts_xyz) domain) loc = Some target \<and> has_wild loc \<and>
            i < length pts_xyz \<and> j < length pts_xyz \<and> i \<noteq> j \<and>
            chk loc target (map xyz2cra pts_xyz ! i) \<and> chk loc target (map xyz2cra pts_xyz ! j) \<and>
            nth3 (map xyz2cra pts_xyz ! i) (wild_index loc) = nth3 (map xyz2cra pts_xyz ! j) (wild_index loc)))"
proof (intro conjI allI impI)
  fix ids coords loc crd
  assume g0: "get_ids pts_xyz domain = Inr (ids, coords)" and c: "map_of coords loc = Some crd"
  let ?cra = "map xyz2cra pts_xyz"
  from g0 have g: "get_ids_cra ?cra domain = Inr (ids, coords)" by (simp add: get_ids_def)
  from c have "loc \<in> fst ` set coords" using map_of_eq_None_iff[of coords loc] by simp
  with get_ids_cra_keys(2)[OF g] have "loc \<in> fst ` set (locations_of ?cra domain)" by blast
  then obtain target where "map_of (locations_of ?cra domain) loc = Some target"
    using map_of_eq_None_iff[of "locations_of ?cra domain" loc] by auto
  from get_ids_cra_entry[OF g this] c have s: "sorted_wrt (<) crd"
    by (auto simp: entry_ok_def split: if_splits)
  then show "sorted_wrt (<) crd" .
  from s show "distinct crd" by (simp add: strict_sorted_iff)
next
  fix ids coords loc target
  let ?cra = "map xyz2cra pts_xyz"
  assume g0: "get_ids pts_xyz domain = Inr (ids, coords)"
     and l: "map_of (locations_of ?cra domain) loc = Some target"
     and w: "has_wild loc" and ne: "where_ids ?cra loc target \<noteq> []"
  from g0 have g: "get_ids_cra ?cra domain = Inr (ids, coords)" by (simp add: get_ids_def)
  from get_ids_cra_entry[OF g l] obtain pt where
    pt: "map_of ids loc = Some pt" "set pt = set (where_ids ?cra loc target)"
    and r: "if pt \<noteq> [] \<and> has_wild loc
         then map_of coords loc = Some (axis_coords ?cra loc pt) \<and> sorted_wrt (<) (axis_coords ?cra loc pt)
         else map_of coords loc = None"
    by (auto simp: entry_ok_def)
  from pt(2) ne have "pt \<noteq> []" by (metis set_empty)
  with r w pt show "\<exists>pt. map_of ids loc = Some pt \<and>
                set pt = set (where_ids ?cra loc target) \<and>
                map_of coords loc = Some (axis_coords ?cra loc pt) \<and>
                sorted_wrt (<) (axis_coords ?cra loc pt)" by auto
next
  show "(get_ids pts_xyz domain = Inl AssertionError) =
        (\<exists>loc target i j.
            map_of (locations_of (map xyz2cra pts_xyz) domain) loc = Some target \<and> has_wild loc \<and>
            i < length pts_xyz \<and> j < length pts_xyz \<and> i \<noteq> j \<and>
            chk loc target (map xyz2cra pts_xyz ! i) \<and> chk loc target (map xyz2cra pts_xyz ! j) \<and>
            nth3 (map xyz2cra pts_xyz ! i) (wild_index loc) = nth3 (map xyz2cra pts_xyz ! j) (wild_index loc))"
    unfolding get_ids_def get_ids_cra_assertion dup_coords by (simp del: nth_map)
qed

theorem get_ids_wildcard_sorted_or_error_witness:
  "sorted_wrt (<) [0, 500001 / 1000000, 1 :: real]
   \<and> get_ids [(0, 0, 0), (0, 0, 1), (0, 0, 1)] ''fluid'' = Inl AssertionError"
proof -
  let ?key = "(LInt 0, LStr ''center'', wild)"
  note T1 = get_ids_wildcard_sorted_or_error[of "[(0, 0, 0), (0, 0, 500001 / 1000000), (0, 0, 1)]" "''fluid''",
      THEN conjunct1, rule_format, OF get_ids_example, THEN conjunct1, rule_format, of ?key "[0, 500001 / 1000000, 1]"]
  have a: "sorted_wrt (<) [0, 500001 / 1000000, 1 :: real]"
    using T1 by (simp add: wild_def)
  let ?pts = "[(0, 0, 0), (0, 0, 1), (0, 0, 1 :: real)]"
  have "\<exists>loc target i j.
            map_of (locations_of (map xyz2cra ?pts) ''fluid'') loc = Some target \<and> has_wild loc \<and>
            i < length ?pts \<and> j < length ?pts \<and> i \<noteq> j \<and>
            chk loc target (map xyz2cra ?pts ! i) \<and> chk loc target (map xyz2cra ?pts ! j) \<and>
            nth3 (map xyz2cra ?pts ! i) (wild_index loc) = nth3 (map xyz2cra ?pts ! j) (wild_index loc)"
    apply (rule exI[of _ ?key], rule exI[of _ "(0, 0, 1)"], rule exI[of _ 1], rule exI[of _ 2])
    using dup_target_example
    by (simp add: xyz2cra_axis has_wild_def wild_index_def chk_def isclose_def wild_def)
  then have b: "get_ids ?pts ''fluid'' = Inl AssertionError"
    using get_ids_wildcard_sorted_or_error[of ?pts "''fluid''", THEN conjunct2] by blast
  from a b show ?thesis by blast
qed

section \<open>Properties of the field extraction and the time averaging\<close>

lemma appendedD:
  assumes "appended f ids a post post'"
  shows "map fst post' = map fst post"
    and "inv_post post \<Longrightarrow> inv_post post'"
    and "\<And>loc f'. f' \<noteq> f \<Longrightarrow> series post' loc f' = series post loc f'"
    and "\<And>loc. map_of ids loc = None \<Longrightarrow> series post' loc f = series post loc f"
    and "\<And>loc pt. map_of ids loc = Some pt \<Longrightarrow>
           \<exists>v. take_rows a pt = Inr v \<and> series post' loc f = series post loc f @ [v]"
  using assms unfolding appended_def by blast+

lemma append_value_form:
  assumes "append_value post loc f rhs = Inr post'"
  shows "\<exists>v d. rhs = Inr v \<and> map_of post loc = Some d \<and>
           post' = AList.update loc (AList.update f (field_list d f @ [v]) d) post"
  using assms by (auto simp: append_value_def ebind_def split: option.splits sum.splits)

lemma append_value_series:
  assumes "append_value post loc f rhs = Inr post'"
  shows "\<exists>v. rhs = Inr v \<and>
           (\<forall>loc' f'. series post' loc' f' =
               (if loc' = loc \<and> f' = f then series post loc f @ [v] else series post loc' f'))"
proof -
  from append_value_form[OF assms] obtain v d where
    r: "rhs = Inr v" and m: "map_of post loc = Some d"
    and p: "post' = AList.update loc (AList.update f (field_list d f @ [v]) d) post" by blast
  have "series post' loc' f' =
               (if loc' = loc \<and> f' = f then series post loc f @ [v] else series post loc' f')" for loc' f'
    unfolding p series_def using m by (simp add: update_conv' field_list_def)
  with r show ?thesis by blast
qed

lemma append_value_keys:
  assumes "append_value post loc f rhs = Inr post'"
  shows "map fst post' = map fst post" and "inv_post post \<Longrightarrow> inv_post post'"
proof -
  from append_value_form[OF assms] obtain v d where
    m: "map_of post loc = Some d"
    and p: "post' = AList.update loc (AList.update f (field_list d f @ [v]) d) post" by blast
  from m have "loc \<in> set (map fst post)" using map_of_eq_None_iff[of post loc] by auto
  then show k: "map fst post' = map fst post" unfolding p by (simp add: update_keys)
  assume i: "inv_post post"
  show "inv_post post'"
    unfolding inv_post_def k
    using i m unfolding p inv_post_def by (auto simp: update_conv' distinct_update)
qed

lemma append_loop_appended:
  assumes "distinct (map fst ids)" "append_loop f ids a post = Inr post'"
  shows "appended f ids a post post'"
  using assms
proof (induction ids arbitrary: post)
  case Nil
  then show ?case by (simp add: appended_def)
next
  case (Cons x ids)
  obtain loc pt where x: "x = (loc, pt)" by (cases x)
  from Cons.prems(2) x obtain post1 where
    a: "append_value post loc f (take_rows a pt) = Inr post1" and r: "append_loop f ids a post1 = Inr post'"
    by (auto simp: ebind_def split: sum.splits)
  from Cons.prems(1) x have d: "distinct (map fst ids)" and fresh: "map_of ids loc = None"
    by (auto simp: map_of_eq_None_iff)
  from append_value_series[OF a] obtain v where
    v: "take_rows a pt = Inr v"
    and s: "\<And>loc' f'. series post1 loc' f' =
               (if loc' = loc \<and> f' = f then series post loc f @ [v] else series post loc' f')" by blast
  note K = append_value_keys[OF a]
  note IH = appendedD[OF Cons.IH[OF d r]]
  show ?case
    unfolding appended_def
  proof (intro conjI allI impI)
    show "map fst post' = map fst post" using IH(1) K(1) by simp
    show "inv_post post'" if "inv_post post" using IH(2) K(2)[OF that] by simp
  next
    fix l f' assume "f' \<noteq> f"
    then show "series post' l f' = series post l f'" using IH(3)[of f' l] s[of l f'] by simp
  next
    fix l assume "map_of (x # ids) l = None"
    then have "l \<noteq> loc" "map_of ids l = None" using x by (auto split: if_splits)
    then show "series post' l f = series post l f" using IH(4)[of l] s[of l f] by simp
  next
    fix l p assume m: "map_of (x # ids) l = Some p"
    show "\<exists>v. take_rows a p = Inr v \<and> series post' l f = series post l f @ [v]"
    proof (cases "l = loc")
      case True
      with m x have "p = pt" by simp
      moreover from IH(4)[of l] fresh True have "series post' l f = series post1 l f" by simp
      ultimately show ?thesis using v s[of l f] True by simp
    next
      case False
      with m x have "map_of ids l = Some p" by simp
      from IH(5)[OF this] obtain w where "take_rows a p = Inr w" "series post' l f = series post1 l f @ [w]"
        by blast
      then show ?thesis using s[of l f] False by simp
    qed
  qed
qed

lemma grownI:
  assumes "map fst post' = map fst post" "inv_post post \<Longrightarrow> inv_post post'"
      and "\<And>loc pt f. map_of ids loc = Some pt \<Longrightarrow> f \<in> set fs \<Longrightarrow>
             \<exists>vs. map (\<lambda>res. values_at f res pts pt) rs = map Inr vs \<and>
               series post' loc f = series post loc f @ vs"
  shows "grown fs ids rs pts post post'"
  using assms unfolding grown_def by blast

lemma grownD:
  assumes "grown fs ids rs pts post post'"
  shows "map fst post' = map fst post" and "inv_post post \<Longrightarrow> inv_post post'"
    and "\<And>loc pt f. map_of ids loc = Some pt \<Longrightarrow> f \<in> set fs \<Longrightarrow>
             \<exists>vs. map (\<lambda>res. values_at f res pts pt) rs = map Inr vs \<and>
               series post' loc f = series post loc f @ vs"
  using assms unfolding grown_def by blast+

lemma grown_nil: "grown fs ids [] pts post post"
  by (simp add: grown_def)

lemma grown_trans:
  assumes "grown fs ids [r] pts post post1" "grown fs ids rs pts post1 post2"
  shows "grown fs ids (r # rs) pts post post2"
proof (rule grownI)
  note A = grownD[OF assms(1)] and B = grownD[OF assms(2)]
  show "map fst post2 = map fst post" using A(1) B(1) by simp
  show "inv_post post2" if "inv_post post" using A(2)[OF that] B(2) by simp
  fix loc pt f assume m: "map_of ids loc = Some pt" and f: "f \<in> set fs"
  from A(3)[OF m f] obtain v where v: "values_at f r pts pt = Inr v" "series post1 loc f = series post loc f @ [v]"
    by auto
  from B(3)[OF m f] obtain vs where vs: "map (\<lambda>res. values_at f res pts pt) rs = map Inr vs"
    "series post2 loc f = series post1 loc f @ vs" by blast
  have "map (\<lambda>res. values_at f res pts pt) (r # rs) = map Inr (v # vs)" using v(1) vs(1) by simp
  moreover have "series post2 loc f = series post loc f @ (v # vs)" using v(2) vs(2) by simp
  ultimately show "\<exists>vs. map (\<lambda>res. values_at f res pts pt) (r # rs) = map Inr vs \<and>
               series post2 loc f = series post loc f @ vs" by blast
qed

lemma centerline_loop_series:
  assumes "distinct (map fst ids)" "centerline_loop ids P V post = Inr post'"
  shows "map fst post' = map fst post \<and> (inv_post post \<longrightarrow> inv_post post') \<and>
         (\<forall>loc. map_of ids loc = None \<longrightarrow> (\<forall>f. series post' loc f = series post loc f)) \<and>
         (\<forall>loc pt. map_of ids loc = Some pt \<longrightarrow>
            (\<exists>v w. take_rows P pt = Inr v \<and> take_rows (Arr1 V) pt = Inr w \<and>
               series post' loc ''pressure'' = series post loc ''pressure'' @ [v] \<and>
               series post' loc ''velocity'' = series post loc ''velocity'' @ [w]))"
  using assms
proof (induction ids arbitrary: post)
  case Nil
  then show ?case by simp
next
  case (Cons x ids)
  obtain loc pt where x: "x = (loc, pt)" by (cases x)
  from Cons.prems(2) x obtain post1 post2 where
    a1: "append_value post loc ''pressure'' (take_rows P pt) = Inr post1"
    and a2: "append_value post1 loc ''velocity'' (take_rows (Arr1 V) pt) = Inr post2"
    and r: "centerline_loop ids P V post2 = Inr post'"
    by (auto simp: ebind_def split: sum.splits)
  from Cons.prems(1) x have d: "distinct (map fst ids)" and fresh: "map_of ids loc = None"
    by (auto simp: map_of_eq_None_iff)
  from append_value_series[OF a1] obtain v where
    v: "take_rows P pt = Inr v"
    and s1: "\<And>loc' f'. series post1 loc' f' =
               (if loc' = loc \<and> f' = ''pressure'' then series post loc ''pressure'' @ [v] else series post loc' f')" by blast
  from append_value_series[OF a2] obtain w where
    w: "take_rows (Arr1 V) pt = Inr w"
    and s2: "\<And>loc' f'. series post2 loc' f' =
               (if loc' = loc \<and> f' = ''velocity'' then series post1 loc ''velocity'' @ [w] else series post1 loc' f')" by blast
  note K1 = append_value_keys[OF a1] and K2 = append_value_keys[OF a2]
  from Cons.IH[OF d r] have
    IH1: "map fst post' = map fst post2" and IH2: "inv_post post2 \<Longrightarrow> inv_post post'"
    and IH3: "\<And>l f. map_of ids l = None \<Longrightarrow> series post' l f = series post2 l f"
    and IH4: "\<And>l p. map_of ids l = Some p \<Longrightarrow>
            \<exists>v w. take_rows P p = Inr v \<and> take_rows (Arr1 V) p = Inr w \<and>
               series post' l ''pressure'' = series post2 l ''pressure'' @ [v] \<and>
               series post' l ''velocity'' = series post2 l ''velocity'' @ [w]"
    by blast+
  show ?case
  proof (intro conjI allI impI)
    show "map fst post' = map fst post" using IH1 K1(1) K2(1) by simp
    show "inv_post post'" if "inv_post post" using IH2 K2(2) K1(2)[OF that] by simp
  next
    fix l f assume "map_of (x # ids) l = None"
    then have "l \<noteq> loc" "map_of ids l = None" using x by (auto split: if_splits)
    then show "series post' l f = series post l f" using IH3[of l f] s1[of l f] s2[of l f] by simp
  next
    fix l p assume m: "map_of (x # ids) l = Some p"
    show "\<exists>v w. take_rows P p = Inr v \<and> take_rows (Arr1 V) p = Inr w \<and>
               series post' l ''pressure'' = series post l ''pressure'' @ [v] \<and>
               series post' l ''velocity'' = series post l ''velocity'' @ [w]"
    proof (cases "l = loc")
      case True
      with m x have "p = pt" by simp
      moreover have "series post' l ''pressure'' = series post l ''pressure'' @ [v]"
        using IH3[OF fresh, of "''pressure''"] s1[of loc "''pressure''"] s2[of loc "''pressure''"] True by simp
      moreover have "series post' l ''velocity'' = series post l ''velocity'' @ [w]"
        using IH3[OF fresh, of "''velocity''"] s1[of loc "''velocity''"] s2[of loc "''velocity''"] True by simp
      ultimately show ?thesis using v w by blast
    next
      case False
      with m x have "map_of ids l = Some p" by simp
      from IH4[OF this] obtain v' w' where "take_rows P p = Inr v'" "take_rows (Arr1 V) p = Inr w'"
        "series post' l ''pressure'' = series post2 l ''pressure'' @ [v']"
        "series post' l ''velocity'' = series post2 l ''velocity'' @ [w']" by blast
      then show ?thesis using s1[of l] s2[of l] False by simp
    qed
  qed
qed

lemma fluid_step:
  assumes "distinct (map fst ids)" "extract_results_fluid_centerline post res pts ids = Inr post'"
  shows "grown [''pressure'', ''velocity''] ids [res] pts post post'"
proof -
  from assms(2) obtain P V0 V where
    P: "GetArray res ''Pressure'' = Inr P" and V0: "GetArray res ''Velocity'' = Inr V0"
    and V: "norm_axis1 V0 = Inr V" and c: "centerline_loop ids P V post = Inr post'"
    by (auto simp: extract_results_fluid_centerline_def ebind_def split: sum.splits)
  note C = centerline_loop_series[OF assms(1) c]
  show ?thesis
  proof (rule grownI)
    show "map fst post' = map fst post" using C by blast
    show "inv_post post'" if "inv_post post" using C that by blast
    fix loc pt f assume m: "map_of ids loc = Some pt" and f: "f \<in> set [''pressure'', ''velocity'']"
    from C m obtain v w where vw: "take_rows P pt = Inr v" "take_rows (Arr1 V) pt = Inr w"
      "series post' loc ''pressure'' = series post loc ''pressure'' @ [v]"
      "series post' loc ''velocity'' = series post loc ''velocity'' @ [w]" by blast
    from f consider "f = ''pressure''" | "f = ''velocity''" by auto
    then show "\<exists>vs. map (\<lambda>res. values_at f res pts pt) [res] = map Inr vs \<and>
               series post' loc f = series post loc f @ vs"
    proof cases
      case 1
      then have "values_at f res pts pt = Inr v" using P vw(1) by (simp add: values_at_def ebind_def)
      with vw(3) 1 show ?thesis by (intro exI[of _ "[v]"]) simp
    next
      case 2
      then have "values_at f res pts pt = Inr w" using V0 V vw(2) by (simp add: values_at_def ebind_def)
      with vw(4) 2 show ?thesis by (intro exI[of _ "[w]"]) simp
    qed
  qed
qed

lemma interface_step:
  assumes "distinct (map fst ids)" "extract_results_wall post res pts ids = Inr post1"
      and "extract_wss post1 res pts ids = Inr (post2, out)"
  shows "grown [''pressure'', ''wss''] ids [res] pts post post2"
proof -
  from assms(2) obtain P where
    P: "GetArray res ''Pressure'' = Inr P" and a1: "append_loop ''pressure'' ids P post = Inr post1"
    by (auto simp: extract_results_wall_def ebind_def split: sum.splits)
  from assms(3) obtain W where
    W: "wss_array res pts = Inr (W, out)" and a2: "append_loop ''wss'' ids (Arr1 W) post1 = Inr post2"
    by (auto simp: extract_wss_def ebind_def split: sum.splits prod.splits)
  note A = appendedD[OF append_loop_appended[OF assms(1) a1]]
    and B = appendedD[OF append_loop_appended[OF assms(1) a2]]
  show ?thesis
  proof (rule grownI)
    show "map fst post2 = map fst post" using A(1) B(1) by simp
    show "inv_post post2" if "inv_post post" using A(2)[OF that] B(2) by simp
    fix loc pt f assume m: "map_of ids loc = Some pt" and f: "f \<in> set [''pressure'', ''wss'']"
    from f consider "f = ''pressure''" | "f = ''wss''" by auto
    then show "\<exists>vs. map (\<lambda>res. values_at f res pts pt) [res] = map Inr vs \<and>
               series post2 loc f = series post loc f @ vs"
    proof cases
      case 1
      from A(5)[OF m] obtain v where v: "take_rows P pt = Inr v"
        "series post1 loc ''pressure'' = series post loc ''pressure'' @ [v]" by blast
      have "series post2 loc ''pressure'' = series post1 loc ''pressure''" by (rule B(3)) simp
      moreover have "values_at f res pts pt = Inr v" using 1 P v(1) by (simp add: values_at_def ebind_def)
      ultimately show ?thesis using v(2) 1 by (intro exI[of _ "[v]"]) simp
    next
      case 2
      from B(5)[OF m] obtain v where v: "take_rows (Arr1 W) pt = Inr v"
        "series post2 loc ''wss'' = series post1 loc ''wss'' @ [v]" by blast
      have "series post1 loc ''wss'' = series post loc ''wss''" by (rule A(3)) simp
      moreover have "values_at f res pts pt = Inr v" using 2 W v(1) by (simp add: values_at_def ebind_def)
      ultimately show ?thesis using v(2) 2 by (intro exI[of _ "[v]"]) simp
    qed
  qed
qed

lemma results_loop_grown:
  assumes "distinct (map fst idf)" "distinct (map fst idi)"
      and "results_loop rs i pts idf idi ss (pf0, pit0, out0) = Inr (pf, pit, out)"
  shows "grown [''pressure'', ''velocity''] idf (drop (nat (ss - i)) rs) pts pf0 pf \<and>
         grown [''pressure'', ''wss''] idi (drop (nat (ss - i)) rs) pts pit0 pit"
  using assms(3)
proof (induction rs arbitrary: i pf0 pit0 out0)
  case Nil
  then show ?case by (simp add: grown_nil)
next
  case (Cons res rs)
  show ?case
  proof (cases "i \<ge> ss")
    case True
    with Cons.prems obtain pf1 pit1 pit2 printed where
      a: "extract_results_fluid_centerline pf0 res pts idf = Inr pf1"
      and b: "extract_results_wall pit0 res pts idi = Inr pit1"
      and c: "extract_wss pit1 res pts idi = Inr (pit2, printed)"
      and r: "results_loop rs (i + 1) pts idf idi ss (pf1, pit2, out0 @ printed) = Inr (pf, pit, out)"
      by (auto simp: ebind_def split: sum.splits prod.splits)
    from True have n: "nat (ss - i) = 0" "nat (ss - (i + 1)) = 0" by simp_all
    from Cons.IH[OF r] have IH: "grown [''pressure'', ''velocity''] idf rs pts pf1 pf"
      "grown [''pressure'', ''wss''] idi rs pts pit2 pit" by (simp_all add: n)
    show ?thesis
      unfolding n using grown_trans[OF fluid_step[OF assms(1) a] IH(1)]
        grown_trans[OF interface_step[OF assms(2) b c] IH(2)] by simp
  next
    case False
    with Cons.prems have r: "results_loop rs (i + 1) pts idf idi ss (pf0, pit0, out0) = Inr (pf, pit, out)"
      by simp
    from False have "nat (ss - i) = Suc (nat (ss - (i + 1)))" by simp
    then show ?thesis using Cons.IH[OF r] by simp
  qed
qed

lemma fold_update_empty:
  "map_of (fold (\<lambda>k. AList.update k []) ks acc) k =
     (if k \<in> set ks then Some [] else map_of acc k)"
  by (induction ks arbitrary: acc) (auto simp: update_conv')

lemma fold_update_distinct:
  "distinct (map fst acc) \<Longrightarrow> distinct (map fst (fold (\<lambda>k. AList.update k v) ks acc))"
  by (induction ks arbitrary: acc) (auto simp: distinct_update)

lemma empty_post_map_of:
  "map_of (empty_post ids) loc = (if loc \<in> fst ` set ids then Some [] else None)"
  by (simp add: empty_post_def fold_update_empty)

lemma empty_post_inv: "inv_post (empty_post ids)"
  unfolding inv_post_def
  by (auto simp: empty_post_map_of split: if_splits) (simp add: empty_post_def fold_update_distinct)

lemma empty_post_series: "series (empty_post ids) loc f = []"
  by (simp add: series_def empty_post_map_of field_list_def)

lemma series_lookup:
  "series post loc f = vs \<Longrightarrow> vs \<noteq> [] \<Longrightarrow> \<exists>d. map_of post loc = Some d \<and> map_of d f = Some vs"
  by (auto simp: series_def field_list_def split: option.splits)

lemma mean_fields_lookup:
  "mean_fields d = Inr e \<Longrightarrow> map_of d f = Some l \<Longrightarrow>
     \<exists>m. np_mean_axis0 l = Inr m \<and> map_of e f = Some m"
  by (induction d arbitrary: e) (auto simp: ebind_def split: sum.splits if_splits)

lemma mean_post_lookup:
  "mean_post p = Inr A \<Longrightarrow> map_of p loc = Some d \<Longrightarrow>
     \<exists>e. mean_fields d = Inr e \<and> map_of A loc = Some e"
  by (induction p arbitrary: A) (auto simp: ebind_def split: sum.splits if_splits)

lemma interface_fields_other:
  "interface_fields d e0 = Inr e \<Longrightarrow> f \<notin> fst ` set d \<Longrightarrow> map_of e f = map_of e0 f"
  by (induction d arbitrary: e0) (auto simp: ebind_def update_conv' split: sum.splits)

lemma interface_fields_lookup:
  "distinct (map fst d) \<Longrightarrow> interface_fields d e0 = Inr e \<Longrightarrow> map_of d f = Some l \<Longrightarrow>
     \<exists>m. np_mean_axis0 l = Inr m \<and> map_of e f = Some m"
proof (induction d arbitrary: e0)
  case Nil
  then show ?case by simp
next
  case (Cons x d)
  obtain f' l' where x: "x = (f', l')" by (cases x)
  from Cons.prems(2) x obtain m' where m': "np_mean_axis0 l' = Inr m'"
    and r: "interface_fields d (AList.update f' m' e0) = Inr e"
    by (auto simp: ebind_def split: sum.splits)
  show ?case
  proof (cases "f = f'")
    case True
    with Cons.prems(3) x have "l = l'" by simp
    moreover from Cons.prems(1) x True have "f \<notin> fst ` set d" by auto
    from interface_fields_other[OF r this] True have "map_of e f = Some m'" by (simp add: update_conv')
    ultimately show ?thesis using m' by simp
  next
    case False
    with Cons.prems(3) x have "map_of d f = Some l" by simp
    moreover from Cons.prems(1) have "distinct (map fst d)" by simp
    ultimately show ?thesis using Cons.IH r by blast
  qed
qed

lemma interface_loop_other:
  "interface_loop p P0 = Inr P \<Longrightarrow> loc \<notin> fst ` set p \<Longrightarrow> map_of P loc = map_of P0 loc"
proof (induction p arbitrary: P0)
  case Nil
  then show ?case by simp
next
  case (Cons x p)
  obtain k d where x: "x = (k, d)" by (cases x)
  from Cons.prems(1) x obtain e0 e' where "map_of P0 k = Some e0"
    and r: "interface_loop p (AList.update k e' P0) = Inr P"
    by (auto simp: ebind_def split: option.splits sum.splits)
  from Cons.prems(2) x have "loc \<noteq> k" "loc \<notin> fst ` set p" by auto
  with Cons.IH[OF r] show ?case by (simp add: update_conv')
qed

lemma interface_loop_lookup:
  "distinct (map fst p) \<Longrightarrow> interface_loop p P0 = Inr P \<Longrightarrow> map_of p loc = Some d \<Longrightarrow>
     \<exists>e0 e. interface_fields d e0 = Inr e \<and> map_of P loc = Some e"
proof (induction p arbitrary: P0)
  case Nil
  then show ?case by simp
next
  case (Cons x p)
  obtain k d' where x: "x = (k, d')" by (cases x)
  from Cons.prems(2) x obtain e0 e' where "map_of P0 k = Some e0"
    and f: "interface_fields d' e0 = Inr e'"
    and r: "interface_loop p (AList.update k e' P0) = Inr P"
    by (auto simp: ebind_def split: option.splits sum.splits)
  show ?case
  proof (cases "loc = k")
    case True
    with Cons.prems(3) x have "d = d'" by simp
    moreover from Cons.prems(1) x True have "loc \<notin> fst ` set p" by auto
    from interface_loop_other[OF r this] True have "map_of P loc = Some e'" by (simp add: update_conv')
    ultimately show ?thesis using f by blast
  next
    case False
    with Cons.prems(3) x have "map_of p loc = Some d" by simp
    moreover from Cons.prems(1) have "distinct (map fst p)" by simp
    ultimately show ?thesis using Cons.IH r by blast
  qed
qed

lemma all_arr1_map: "all_arr1 (map Arr1 rows) = Some rows"
  by (induction rows) auto

lemma foldl_add_rows:
  assumes "\<forall>r\<in>set rows. length r = n" "length x = n"
  shows "length (foldl add_rows x rows) = n"
    and "j < n \<Longrightarrow> foldl add_rows x rows ! j = x ! j + sum_list (map (\<lambda>r. r ! j) rows)"
  using assms
proof (induction rows arbitrary: x)
  case Nil
  { case 1 then show ?case by simp }
  { case 2 then show ?case by simp }
next
  case (Cons r rows)
  { case 1
    then have "length (add_rows x r) = n" by (simp add: add_rows_def)
    with Cons.IH(1)[of "add_rows x r"] 1 show ?case by simp }
  { case 2
    then have l: "length (add_rows x r) = n" and e: "add_rows x r ! j = x ! j + r ! j"
      by (simp_all add: add_rows_def)
    with Cons.IH(2)[of "add_rows x r"] 2 show ?case by simp }
qed

lemma np_mean_axis0_rows:
  assumes "rows \<noteq> []" "\<forall>r\<in>set rows. length r = n"
  shows "np_mean_axis0 (map Arr1 rows) = Inr (PArr (Arr1 (mean_rows rows)))"
proof -
  from assms obtain x rest where xr: "rows = x # rest" by (cases rows) auto
  with assms(2) have lx: "length x = n" and lr: "\<forall>r\<in>set rest. length r = n" by auto
  note F = foldl_add_rows[OF lr lx]
  have "map (\<lambda>s. s / real (length rows)) (foldl add_rows x rest) = mean_rows rows"
  proof (rule nth_equalityI)
    show "length (map (\<lambda>s. s / real (length rows)) (foldl add_rows x rest)) = length (mean_rows rows)"
      using F(1) lx xr by (simp add: mean_rows_def)
    fix j assume "j < length (map (\<lambda>s. s / real (length rows)) (foldl add_rows x rest))"
    then have j: "j < n" using F(1) by simp
    with F(2)[OF j] show "map (\<lambda>s. s / real (length rows)) (foldl add_rows x rest) ! j = mean_rows rows ! j"
      using F(1) lx xr by (simp add: mean_rows_def)
  qed
  moreover have "list_all (\<lambda>r. length r = length (hd rows)) rows"
    using assms(2) xr by (simp add: list_all_iff)
  ultimately show ?thesis using xr by (simp add: np_mean_axis0_def all_arr1_map)
qed

lemma np_mean_axis0_single: "np_mean_axis0 [v] = Inr (PArr v)"
  by (cases v) (simp_all add: np_mean_axis0_def)

lemma take_ids_length: "take_ids xs pt = Inr r \<Longrightarrow> length r = length pt"
  by (auto simp: take_ids_def split: if_splits)

lemma take_rows_length: "take_rows a pt = Inr (Arr1 r) \<Longrightarrow> length r = length pt"
  by (cases a) (auto simp: ebind_def split: sum.splits dest: take_ids_length)

lemma values_at_length: "values_at f res pts pt = Inr (Arr1 r) \<Longrightarrow> length r = length pt"
  by (auto simp: values_at_def ebind_def split: if_splits sum.splits dest: take_rows_length take_ids_length)

lemma averaged_series:
  assumes "series post loc f = vs" "vs \<noteq> []" "inv_post post"
      and "\<And>m. avg_at A loc f = Some m \<Longrightarrow> np_mean_axis0 vs = Inr m \<Longrightarrow> Q"
      and "mean_post post = Inr A \<or> interface_loop post P0 = Inr A"
  shows Q
proof -
  from series_lookup[OF assms(1,2)] obtain d where d: "map_of post loc = Some d" "map_of d f = Some vs"
    by blast
  from assms(3) d(1) have dd: "distinct (map fst d)" and dp: "distinct (map fst post)"
    unfolding inv_post_def by blast+
  from assms(5) show Q
  proof
    assume "mean_post post = Inr A"
    from mean_post_lookup[OF this d(1)] obtain e where e: "mean_fields d = Inr e" "map_of A loc = Some e"
      by blast
    from mean_fields_lookup[OF e(1) d(2)] e(2) assms(4) show Q by (auto simp: avg_at_def)
  next
    assume "interface_loop post P0 = Inr A"
    from interface_loop_lookup[OF dp this d(1)] obtain e0 e where
      e: "interface_fields d e0 = Inr e" "map_of A loc = Some e" by blast
    from interface_fields_lookup[OF dd e(1) d(2)] e(2) assms(4) show Q by (auto simp: avg_at_def)
  qed
qed

lemma mean_of_values:
  assumes "map (\<lambda>res. values_at f res pts pt) W = map Inr vs" "W \<noteq> []"
      and "np_mean_axis0 vs = Inr m"
  shows "(\<forall>rows. vs = map Arr1 rows \<longrightarrow> m = PArr (Arr1 (mean_rows rows))) \<and>
         (\<forall>v. vs = [v] \<longrightarrow> m = PArr v)"
proof (intro conjI allI impI)
  fix rows assume r: "vs = map Arr1 rows"
  from assms(1,2) have len: "length vs = length W" "vs \<noteq> []"
    by (metis length_map, metis length_map length_0_conv)
  with r have ne: "rows \<noteq> []" by auto
  have "\<forall>x\<in>set rows. length x = length pt"
  proof
    fix x assume "x \<in> set rows"
    then obtain t where t: "t < length rows" "rows ! t = x" by (auto simp: in_set_conv_nth)
    with r len have tw: "t < length W" by simp
    have "map (\<lambda>res. values_at f res pts pt) W ! t = map Inr vs ! t" using assms(1) by simp
    with tw t r len have "values_at f (W ! t) pts pt = Inr (Arr1 x)" by simp
    then show "length x = length pt" by (rule values_at_length)
  qed
  from np_mean_axis0_rows[OF ne this] assms(3) r show "m = PArr (Arr1 (mean_rows rows))" by simp
next
  fix v assume "vs = [v]"
  with assms(3) show "m = PArr v" by (simp add: np_mean_axis0_single)
qed

text \<open>
  Claim C1. Let \<open>get_results\<close> return, on dictionaries \<open>ids_fluid\<close> and \<open>ids_interface\<close>
  and a non-empty window. For every key of \<open>ids_fluid\<close> with the fields pressure and
  velocity, and every key of \<open>ids_interface\<close> with the fields pressure and wss, every
  snapshot of the window supplies its value array, and the time-averaged field is the
  elementwise arithmetic mean over the time axis of these arrays; for a window of exactly
  one snapshot it is that snapshot's value array, unchanged.
\<close>

theorem time_average_is_mean:
  assumes "get_results results pts ids_fluid ids_interface start_step
             = Inr ((post_fluid, post_interface, post_interface_time), out)"
      and "distinct (map fst ids_fluid)" and "distinct (map fst ids_interface)"
      and "window results start_step \<noteq> []"
      and "(map_of ids_fluid loc = Some pt \<and> f \<in> {''pressure'', ''velocity''} \<and> A = post_fluid) \<or>
           (map_of ids_interface loc = Some pt \<and> f \<in> {''pressure'', ''wss''} \<and> A = post_interface)"
  shows "\<exists>vs. map (\<lambda>res. values_at f res pts pt) (window results start_step) = map Inr vs \<and>
           (\<forall>rows. vs = map Arr1 rows \<longrightarrow> avg_at A loc f = Some (PArr (Arr1 (mean_rows rows)))) \<and>
           (\<forall>v. vs = [v] \<longrightarrow> avg_at A loc f = Some (PArr v))"
proof -
  let ?W = "window results start_step"
  from assms(1) obtain pf where
    l: "results_loop results 0 pts ids_fluid ids_interface start_step
          (empty_post ids_fluid, empty_post ids_interface, []) = Inr (pf, post_interface_time, out)"
    and mp: "mean_post pf = Inr post_fluid"
    and il: "interface_loop post_interface_time (empty_post ids_interface) = Inr post_interface"
    by (auto simp: get_results_def ebind_def split: sum.splits prod.splits)
  from results_loop_grown[OF assms(2,3) l] have
    G1: "grown [''pressure'', ''velocity''] ids_fluid ?W pts (empty_post ids_fluid) pf"
    and G2: "grown [''pressure'', ''wss''] ids_interface ?W pts (empty_post ids_interface) post_interface_time"
    by (simp_all add: window_def)
  have core: "\<exists>vs. map (\<lambda>res. values_at f res pts pt) ?W = map Inr vs \<and>
           (\<forall>rows. vs = map Arr1 rows \<longrightarrow> avg_at A loc f = Some (PArr (Arr1 (mean_rows rows)))) \<and>
           (\<forall>v. vs = [v] \<longrightarrow> avg_at A loc f = Some (PArr v))"
    if G: "grown fs ids ?W pts (empty_post ids) post" and m: "map_of ids loc = Some pt" and f: "f \<in> set fs"
      and a: "mean_post post = Inr A \<or> interface_loop post P0 = Inr A"
    for fs ids post P0
  proof -
    from grownD(3)[OF G m f] obtain vs where
      vs: "map (\<lambda>res. values_at f res pts pt) ?W = map Inr vs" "series post loc f = vs"
      by (auto simp: empty_post_series)
    from vs(1) assms(4) have ne: "vs \<noteq> []" by (metis length_map length_0_conv)
    have inv: "inv_post post" using grownD(2)[OF G] empty_post_inv by blast
    show ?thesis
    proof (rule averaged_series[OF vs(2) ne inv _ a])
      fix m' assume av: "avg_at A loc f = Some m'" and mm: "np_mean_axis0 vs = Inr m'"
      from mean_of_values[OF vs(1) assms(4) mm] av vs(1) show ?thesis by blast
    qed
  qed
  from assms(5) show ?thesis
  proof
    assume h: "map_of ids_fluid loc = Some pt \<and> f \<in> {''pressure'', ''velocity''} \<and> A = post_fluid"
    then have "f \<in> set [''pressure'', ''velocity'']" by simp
    from core[OF G1 _ this, of "[]"] h mp show ?thesis by blast
  next
    assume h: "map_of ids_interface loc = Some pt \<and> f \<in> {''pressure'', ''wss''} \<and> A = post_interface"
    then have "f \<in> set [''pressure'', ''wss'']" by simp
    from core[OF G2 _ this, of "empty_post ids_interface"] h il show ?thesis by blast
  qed
qed

lemma row_norm_zero: "row_norm [0, 0, 0] = 0"
  by (simp add: row_norm_def)

lemma get_results_example:
  "get_results
     [\<lparr>points = [(0, 0, 0)], point_data = [(''Pressure'', Arr1 [1]), (''Velocity'', Arr2 [[0, 0, 0]])]\<rparr>,
      \<lparr>points = [(0, 0, 0)], point_data = [(''Pressure'', Arr1 [2]), (''Velocity'', Arr2 [[0, 0, 0]])]\<rparr>,
      \<lparr>points = [(0, 0, 0)], point_data = [(''Pressure'', Arr1 [3]), (''Velocity'', Arr2 [[0, 0, 0]])]\<rparr>]
     [(0, 0, 0)]
     [((LInt 0, LStr ''center'', LStr ''start''), [0])]
     [((LInt 0, LStr ''wall'', LStr ''start''), [0])] 0
   = Inr (([((LInt 0, LStr ''center'', LStr ''start''),
             [(''pressure'', PArr (Arr1 [2])), (''velocity'', PArr (Arr1 [0]))])],
           [((LInt 0, LStr ''wall'', LStr ''start''),
             [(''pressure'', PArr (Arr1 [2])), (''wss'', PArr (Arr1 [0]))])],
           [((LInt 0, LStr ''wall'', LStr ''start''),
             [(''pressure'', [Arr1 [1], Arr1 [2], Arr1 [3]]),
              (''wss'', [Arr1 [0], Arr1 [0], Arr1 [0]])])]),
          [Warning_WSS_array_not_found, Warning_WSS_array_not_found, Warning_WSS_array_not_found])"
  by (simp add: get_results_def empty_post_def ebind_def extract_results_fluid_centerline_def
        extract_results_wall_def extract_wss_def wss_array_def HasArray_def GetArray_def
        append_value_def field_list_def take_ids_def row_norm_zero np_mean_axis0_def add_rows_def)

text \<open>
  Three snapshots with the pressures 1, 2 and 3 at a single point, averaged from step 0 on,
  give the time-averaged pressure 2 at that point.
\<close>

theorem time_average_is_mean_witness:
  "avg_at [((LInt 0, LStr ''center'', LStr ''start''),
             [(''pressure'', PArr (Arr1 [2])), (''velocity'', PArr (Arr1 [0]))])]
      (LInt 0, LStr ''center'', LStr ''start'') ''pressure''
     = Some (PArr (Arr1 (mean_rows [[1], [2], [3]])))
   \<and> mean_rows [[1], [2], [3]] = [2]"
proof -
  let ?r = "\<lambda>p. \<lparr>points = [(0, 0, 0)], point_data = [(''Pressure'', Arr1 [p]), (''Velocity'', Arr2 [[0, 0, 0]])]\<rparr>"
  let ?res = "[?r 1, ?r 2, ?r 3]"
  let ?kf = "(LInt 0, LStr ''center'', LStr ''start'')"
  let ?pf = "[(?kf, [(''pressure'', PArr (Arr1 [2])), (''velocity'', PArr (Arr1 [0]))])]"
  have d1: "distinct (map fst [(?kf, [0::nat])])" by simp
  have d2: "distinct (map fst [((LInt 0, LStr ''wall'', LStr ''start''), [0::nat])])" by simp
  have w: "window ?res 0 \<noteq> []" by (simp add: window_def)
  have h: "(map_of [(?kf, [0::nat])] ?kf = Some [0] \<and> ''pressure'' \<in> {''pressure'', ''velocity''} \<and> ?pf = ?pf) \<or>
           (map_of [((LInt 0, LStr ''wall'', LStr ''start''), [0::nat])] ?kf = Some [0] \<and>
            ''pressure'' \<in> {''pressure'', ''wss''} \<and>
            ?pf = [((LInt 0, LStr ''wall'', LStr ''start''),
                    [(''pressure'', PArr (Arr1 [2])), (''wss'', PArr (Arr1 [0]))])])"
    by simp
  from time_average_is_mean[OF get_results_example d1 d2 w h]
  obtain vs where vs: "map (\<lambda>res. values_at ''pressure'' res [(0, 0, 0)] [0]) (window ?res 0) = map Inr vs"
    and m: "\<forall>rows. vs = map Arr1 rows \<longrightarrow> avg_at ?pf ?kf ''pressure'' = Some (PArr (Arr1 (mean_rows rows)))"
    by blast
  have "map (\<lambda>res. values_at ''pressure'' res [(0, 0, 0)] [0]) (window ?res 0)
        = map Inr (map Arr1 [[1], [2], [3]])"
    by (simp add: window_def values_at_def GetArray_def ebind_def take_ids_def)
  with vs have "map Inr vs = map (Inr :: ndarray \<Rightarrow> error + ndarray) (map Arr1 [[1], [2], [3]])" by simp
  then have "vs = map Arr1 [[1], [2], [3]]" by (auto simp: map_eq_Cons_conv)
  with m have a: "avg_at ?pf ?kf ''pressure'' = Some (PArr (Arr1 (mean_rows [[1], [2], [3]])))" by blast
  have b: "mean_rows [[1], [2], [3]] = [2]" by (simp add: mean_rows_def)
  from a b show ?thesis by blast
qed

text \<open>
  Claim C3. When \<open>start_step\<close> is at least the number of snapshots found, \<open>post_process\<close>
  raises a \<open>RuntimeError\<close> whatever the snapshots contain: nothing is extracted or
  averaged, and no result is returned. (Without any snapshot the error is the one for an
  empty directory.)
\<close>

theorem post_process_rejects_late_start:
  "int (length res) \<le> start_step \<Longrightarrow>
   post_process res start_step =
     Inl (RuntimeError (if res = [] then No_results_found
                        else Start_step_beyond start_step (length res)))"
  by (simp add: post_process_def)

theorem post_process_rejects_late_start_witness:
  "int (length [\<lparr>points = [], point_data = []\<rparr>]) \<le> 1
   \<and> post_process [\<lparr>points = [], point_data = []\<rparr>] 1 = Inl (RuntimeError (Start_step_beyond 1 1))"
  using post_process_rejects_late_start[of "[\<lparr>points = [], point_data = []\<rparr>]" 1]
  by simp

text \<open>
  Claim C6, at a snapshot with neither a WSS nor a Traction array: both extraction functions
  take the wall shear stress as zero at every point, \<open>extract_wss\<close> prints the warning,
  \<open>extract_wss_mid_timeseries\<close> prints nothing.
\<close>

theorem wss_mid_timeseries_silent_zero:
  "extract_wss_mid_timeseries
     [\<lparr>points = [(0, 1, 0)], point_data = [(''Pressure'', Arr1 [5])]\<rparr>]
     [(0, 1, 0)] [((wild, LStr ''wall'', LStr ''mid''), [0])]
   = Inr (Some [Fin 0], [])
   \<and> extract_wss [((wild, LStr ''wall'', LStr ''mid''), [])]
       \<lparr>points = [(0, 1, 0)], point_data = [(''Pressure'', Arr1 [5])]\<rparr>
       [(0, 1, 0)] [((wild, LStr ''wall'', LStr ''mid''), [0])]
   = Inr ([((wild, LStr ''wall'', LStr ''mid''), [(''wss'', [Arr1 [0]])])],
          [Warning_WSS_array_not_found])"
  by (simp add: extract_wss_mid_timeseries_def wss_array_mid_def extract_wss_def wss_array_def
        HasArray_def GetArray_def ebind_def take_ids_def np_mean_def append_value_def field_list_def)

end
